theory Spec2Isabelle
  imports
    Complex_Main
    "HOL-Library.AList"
    "HOL-Library.Multiset"
    "HOL-Library.List_Lexorder"
    "HOL-Library.Char_ord"
begin

section \<open>Python values\<close>

text \<open>
  The bot handles what \<open>json.loads\<close> returns: \<open>None\<close>, booleans, integers, floats,
  strings, lists and dicts. A dict is an association list in insertion order; a lookup reads
  the first pair with the key (a parsed dict has each key once). A float is the rational it
  denotes (NaN and the infinities are left out). Strings are ASCII.
\<close>

datatype json =
    JNull
  | JBool bool
  | JInt int
  | JFloat rat
  | JStr string
  | JArr "json list"
  | JObj "(string \<times> json) list"

text \<open>The exception classes that occur. \<open>HTTPError\<close> is a subclass of \<open>RequestException\<close>.\<close>

datatype exn =
    RequestException | HTTPError | ValueError | KeyError | TypeError | AttributeError
  | RecursionError | OverflowError | ZeroDivisionError

fun is_RequestException :: "exn \<Rightarrow> bool" where
  "is_RequestException RequestException = True"
| "is_RequestException HTTPError = True"
| "is_RequestException _ = False"

fun is_ValueError :: "exn \<Rightarrow> bool" where
  "is_ValueError ValueError = True"
| "is_ValueError _ = False"

text \<open>\<open>try: body except <classes>: handler\<close>, for a handler that does not use the exception.\<close>

definition try_except :: "exn + 'a \<Rightarrow> (exn \<Rightarrow> bool) \<Rightarrow> exn + 'a \<Rightarrow> exn + 'a" where
  "try_except body handled handler =
     (case body of Inl e \<Rightarrow> (if handled e then handler else Inl e) | Inr v \<Rightarrow> Inr v)"

text \<open>Truth value of an object, as \<open>if x\<close>, \<open>not x\<close> and \<open>x or y\<close> test it.\<close>

fun truthy :: "json \<Rightarrow> bool" where
  "truthy JNull = False"
| "truthy (JBool b) = b"
| "truthy (JInt i) = (i \<noteq> 0)"
| "truthy (JFloat r) = (r \<noteq> 0)"
| "truthy (JStr s) = (s \<noteq> [])"
| "truthy (JArr xs) = (xs \<noteq> [])"
| "truthy (JObj kvs) = (kvs \<noteq> [])"

text \<open>\<open>d.get(key, default)\<close> on a dict.\<close>

definition dict_get :: "(string \<times> json) list \<Rightarrow> string \<Rightarrow> json \<Rightarrow> json" where
  "dict_get d k dflt = (case map_of d k of None \<Rightarrow> dflt | Some v \<Rightarrow> v)"

text \<open>
  Python's \<open>==\<close> on these values: \<open>True == 1 == 1.0\<close>, lists compare elementwise, dicts
  compare as mappings whatever the insertion order. Two values are equal when their normal
  forms (numbers as rationals, dicts sorted by key) coincide.
\<close>

fun py_norm :: "json \<Rightarrow> json" where
  "py_norm JNull = JNull"
| "py_norm (JBool b) = JFloat (if b then 1 else 0)"
| "py_norm (JInt i) = JFloat (of_int i)"
| "py_norm (JFloat r) = JFloat r"
| "py_norm (JStr s) = JStr s"
| "py_norm (JArr xs) = JArr (map py_norm xs)"
| "py_norm (JObj kvs) =
     JObj (sort_key fst (AList.clearjunk (map (\<lambda>(k, v). (k, py_norm v)) kvs)))"

definition py_eq :: "json \<Rightarrow> json \<Rightarrow> bool" where
  "py_eq a b = (py_norm a = py_norm b)"

text \<open>
  Keys of the dict \<open>PREV_STATUS\<close>: hashable values, identified up to \<open>==\<close>. A list or a
  dict is unhashable (\<open>TypeError\<close>).
\<close>

datatype pykey = KNone | KNum rat | KStr string

fun key_of :: "json \<Rightarrow> exn + pykey" where
  "key_of JNull = Inr KNone"
| "key_of (JBool b) = Inr (KNum (if b then 1 else 0))"
| "key_of (JInt i) = Inr (KNum (of_int i))"
| "key_of (JFloat r) = Inr (KNum r)"
| "key_of (JStr s) = Inr (KStr s)"
| "key_of (JArr xs) = Inl TypeError"
| "key_of (JObj kvs) = Inl TypeError"

section \<open>Configuration and the HTTP session\<close>

record config =
  WIFI_HOST :: string
  WIFI_LOGIN :: string
  WIFI_PASSWORD :: string
  ALLOWED_USERS :: "int list"

text \<open>
  \<open>hashlib\<close> is a library: \<open>md5_hexdigest s\<close> stands for
  \<open>hashlib.md5(s.encode()).hexdigest()\<close>, \<open>sha256_hexdigest\<close> likewise.
\<close>

record hashlib =
  md5_hexdigest :: "string \<Rightarrow> string"
  sha256_hexdigest :: "string \<Rightarrow> string"

text \<open>
  A request is a call of \<open>session.get(url, auth=...)\<close> or \<open>session.post(url, json=...)\<close>.
  The call either raises a \<open>requests.RequestException\<close> (connection error, timeout) or
  returns a response. Of a response the code reads the status, the headers (a case-insensitive
  dict, stored under lower-case names) and the body through \<open>r.json()\<close>. That call returns
  the parsed value, raises a \<open>ValueError\<close> when the body is not JSON, and raises a
  \<open>RecursionError\<close> when the body is JSON nested more deeply than the parser's recursion
  limit allows.
\<close>

datatype request = GET string "(string \<times> string) option" | POST string json

datatype body = Not_JSON | Too_Deep | Parsed json

record response =
  status_code :: int
  headers :: "(string \<times> string) list"
  json_body :: body

datatype reply = Raises | Returns response

text \<open>The router answers a request knowing the requests the session made before.\<close>

type_synonym router = "request list \<Rightarrow> request \<Rightarrow> reply"

definition session_send :: "router \<Rightarrow> request \<Rightarrow> request list \<Rightarrow> (exn + response) \<times> request list" where
  "session_send router req sent =
     ((case router sent req of Raises \<Rightarrow> Inl RequestException | Returns r \<Rightarrow> Inr r), sent @ [req])"

text \<open>\<open>str.lower\<close> on a character: a capital letter has the bit of value 32 set.\<close>

definition lower_char :: "char \<Rightarrow> char" where
  "lower_char c =
     (if (65::nat) \<le> of_char c \<and> of_char c \<le> (90::nat)
      then (case c of Char b0 b1 b2 b3 b4 b5 b6 b7 \<Rightarrow> Char b0 b1 b2 b3 b4 True b6 b7)
      else c)"

definition headers_get :: "(string \<times> string) list \<Rightarrow> string \<Rightarrow> string \<Rightarrow> string" where
  "headers_get hs name dflt = (case map_of hs (map lower_char name) of None \<Rightarrow> dflt | Some v \<Rightarrow> v)"

definition raise_for_status :: "response \<Rightarrow> exn + unit" where
  "raise_for_status r =
     (if 400 \<le> status_code r \<and> status_code r < 600 then Inl HTTPError else Inr ())"

definition response_json :: "response \<Rightarrow> exn + json" where
  "response_json r =
     (case json_body r of
        Not_JSON \<Rightarrow> Inl ValueError
      | Too_Deep \<Rightarrow> Inl RecursionError
      | Parsed j \<Rightarrow> Inr j)"

section \<open>The router client\<close>

definition keen_get :: "config \<Rightarrow> router \<Rightarrow> string \<Rightarrow> request list \<Rightarrow> (exn + json) \<times> request list" where
  "keen_get cfg router path sent =
     (let (r, sent') =
            session_send router
              (GET (WIFI_HOST cfg @ ''/rci/show/'' @ path) (Some (WIFI_LOGIN cfg, WIFI_PASSWORD cfg)))
              sent
      in (try_except
            (case r of
               Inl e \<Rightarrow> Inl e
             | Inr resp \<Rightarrow>
                 (case raise_for_status resp of
                    Inl e \<Rightarrow> Inl e
                  | Inr _ \<Rightarrow> try_except (response_json resp) is_ValueError (Inr (JObj []))))
            is_RequestException (Inr (JObj [])),
          sent'))"

definition keen_auth :: "hashlib \<Rightarrow> config \<Rightarrow> router \<Rightarrow> request list \<Rightarrow> bool \<times> request list" where
  "keen_auth hl cfg router sent =
     (let (r, sent1) = session_send router (GET (WIFI_HOST cfg @ ''/auth'') None) sent
      in case r of
           Inl e \<Rightarrow> (False, sent1)
         | Inr resp \<Rightarrow>
             if status_code resp = 200 then (True, sent1)
             else if status_code resp = 401 then
               (let realm = headers_get (headers resp) ''X-NDM-Realm'' '''';
                    challenge = headers_get (headers resp) ''X-NDM-Challenge'' ''''
                in if realm = [] \<or> challenge = [] then (False, sent1)
                   else
                     (let md5 = md5_hexdigest hl (WIFI_LOGIN cfg @ '':'' @ realm @ '':'' @ WIFI_PASSWORD cfg);
                          sha = sha256_hexdigest hl (challenge @ md5);
                          (r2, sent2) =
                            session_send router
                              (POST (WIFI_HOST cfg @ ''/auth'')
                                 (JObj [(''login'', JStr (WIFI_LOGIN cfg)), (''password'', JStr sha)]))
                              sent1
                      in case r2 of
                           Inl e \<Rightarrow> (False, sent2)
                         | Inr resp2 \<Rightarrow> (status_code resp2 = 200, sent2)))
             else (False, sent1))"

text \<open>A request to the authentication endpoint, by either method.\<close>

fun is_auth_request :: "config \<Rightarrow> request \<Rightarrow> bool" where
  "is_auth_request cfg (GET url a) = (url = WIFI_HOST cfg @ ''/auth'')"
| "is_auth_request cfg (POST url b) = (url = WIFI_HOST cfg @ ''/auth'')"

fun is_post :: "request \<Rightarrow> bool" where
  "is_post (POST url b) = True"
| "is_post (GET url a) = False"

section \<open>Strings\<close>

text \<open>\<open>s.split(sep)\<close> with a one-character separator: every occurrence splits.\<close>

fun split_on :: "char \<Rightarrow> string \<Rightarrow> string list" where
  "split_on sep [] = [[]]"
| "split_on sep (c # cs) =
     (if c = sep then [] # split_on sep cs
      else (case split_on sep cs of [] \<Rightarrow> [[c]] | p # ps \<Rightarrow> (c # p) # ps))"

definition is_digit_char :: "char \<Rightarrow> bool" where
  "is_digit_char c = ((48::nat) \<le> of_char c \<and> of_char c \<le> (57::nat))"

text \<open>\<open>s.isdigit()\<close>: at least one character, all of them digits.\<close>

definition isdigit :: "string \<Rightarrow> bool" where
  "isdigit s = (s \<noteq> [] \<and> list_all is_digit_char s)"

definition dec_val :: "string \<Rightarrow> nat" where
  "dec_val s = foldl (\<lambda>n c. 10 * n + (of_char c - 48)) 0 s"

text \<open>
  The characters that \<open>int\<close> skips around an ASCII string: tab, line feed, vertical tab,
  form feed, carriage return and space.
\<close>

definition is_space_char :: "char \<Rightarrow> bool" where
  "is_space_char c = (of_char c \<in> {9::nat, 10, 11, 12, 13, 32})"

definition strip :: "string \<Rightarrow> string" where
  "strip s = rev (dropWhile is_space_char (rev (dropWhile is_space_char s)))"

text \<open>
  \<open>int(s)\<close> for a string: surrounding whitespace, an optional sign, then decimal digits,
  where single underscores may separate groups of digits; anything else is a \<open>ValueError\<close>.
  (The interpreter's configurable limit on the number of digits is not part of the model.)
\<close>

definition int_of_str :: "string \<Rightarrow> exn + int" where
  "int_of_str s =
     (let t = strip s;
          (neg, body) =
            (case t of
               [] \<Rightarrow> (False, [])
             | c # cs \<Rightarrow>
                 if c = CHR ''-'' then (True, cs)
                 else if c = CHR ''+'' then (False, cs)
                 else (False, t));
          groups = split_on CHR ''_'' body
      in if list_all isdigit groups
         then Inr ((if neg then - 1 else 1) * int (dec_val (concat groups)))
         else Inl ValueError)"


text \<open>Applying a function that may raise to each element in turn; the first exception ends it.\<close>

fun collect :: "('a \<Rightarrow> exn + 'b) \<Rightarrow> 'a list \<Rightarrow> exn + 'b list" where
  "collect f [] = Inr []"
| "collect f (x # xs) =
     (case f x of
        Inl e \<Rightarrow> Inl e
      | Inr y \<Rightarrow> (case collect f xs of Inl e \<Rightarrow> Inl e | Inr ys \<Rightarrow> Inr (y # ys)))"

text \<open>
  \<open>sorted(xs, key=f)\<close>: the keys are computed first, one call per element, and the elements
  are then sorted by key, stably. Tuples of integers compare lexicographically, a proper
  prefix before the longer tuple, which is the order of \<open>int list\<close>.
\<close>

definition py_sorted :: "('a \<Rightarrow> exn + 'k::linorder) \<Rightarrow> 'a list \<Rightarrow> exn + 'a list" where
  "py_sorted f xs =
     (case collect f xs of
        Inl e \<Rightarrow> Inl e
      | Inr ks \<Rightarrow> Inr (map snd (sort_key fst (zip ks xs))))"

text \<open>\<open>try: body except Exception: result = dflt\<close>.\<close>

definition catch_all :: "exn + 'a \<Rightarrow> 'a \<Rightarrow> 'a" where
  "catch_all body dflt = (case body of Inl e \<Rightarrow> dflt | Inr v \<Rightarrow> v)"

section \<open>The device list\<close>

text \<open>
  The sort key of \<open>update_clients\<close>. \<open>dev.get\<close> is outside the \<open>try\<close>: on an entry that is
  not a dict it raises. Inside, a value of \<open>ip\<close> that is not a string has no \<open>split\<close>, and a
  part that passes \<open>isdigit\<close> may still be refused by \<open>int\<close>; both give \<open>(0, 0, 0, 0)\<close>.
\<close>

definition ip_sort :: "json \<Rightarrow> exn + int list" where
  "ip_sort dev =
     (case dev of
        JObj d \<Rightarrow>
          Inr (case dict_get d ''ip'' (JStr ''0.0.0.0'') of
                 JStr ip \<Rightarrow>
                   (case collect int_of_str (filter isdigit (split_on CHR ''.'' ip)) of
                      Inl e \<Rightarrow> [0, 0, 0, 0]
                    | Inr t \<Rightarrow> t)
               | _ \<Rightarrow> [0, 0, 0, 0])
      | _ \<Rightarrow> Inl AttributeError)"

text \<open>
  The body of \<open>update_clients\<close> after the call of \<open>keen_get\<close>: the value assigned to
  \<open>ACTIVE_CLIENTS\<close>, or the exception that reaches the \<open>except\<close> clause. Iterating a dict
  yields its keys, iterating a string its characters; other values are not iterable.
\<close>

definition device_list :: "json \<Rightarrow> exn + json list" where
  "device_list data =
     (if \<not> truthy data then Inr []
      else
        (case data of
           JObj d \<Rightarrow>
             (let hosts = dict_get d ''host'' (JArr [])
              in if \<not> truthy hosts then Inr []
                 else
                   (case hosts of
                      JArr hs \<Rightarrow> py_sorted ip_sort hs
                    | JObj kvs \<Rightarrow> py_sorted ip_sort (map (\<lambda>kv. JStr (fst kv)) kvs)
                    | JStr s \<Rightarrow> py_sorted ip_sort (map (\<lambda>c. JStr [c]) s)
                    | _ \<Rightarrow> Inl TypeError))
         | _ \<Rightarrow> Inl AttributeError))"

text \<open>The globals, and the requests the session has made so far.\<close>

record state =
  ACTIVE_CLIENTS :: "json list"
  PREV_STATUS :: "(pykey \<times> json) list"
  requests_sent :: "request list"

definition update_clients :: "config \<Rightarrow> router \<Rightarrow> state \<Rightarrow> state" where
  "update_clients cfg router s =
     (let (data, sent') = keen_get cfg router ''device-list'' (requests_sent s)
      in s\<lparr>ACTIVE_CLIENTS :=
             catch_all (case data of Inl e \<Rightarrow> Inl e | Inr j \<Rightarrow> device_list j) [],
           requests_sent := sent'\<rparr>)"

section \<open>The status check\<close>

text \<open>
  A notification: what the message text is built from (the banner says connected when
  \<open>current\<close> is true), and the chats it is sent to, one \<open>send_message\<close> each. A failed
  delivery is logged and changes nothing else. The dash that stands for a missing IP is
  written \<open>-\<close> here.
\<close>

record event =
  ev_connected :: bool
  ev_name :: json
  ev_mac :: json
  ev_ip :: json
  ev_wifi :: bool
  ev_chat_ids :: "int list"

definition py_or :: "json \<Rightarrow> json \<Rightarrow> json" where
  "py_or a b = (if truthy a then a else b)"

text \<open>
  One pass of the body of \<open>for d in ACTIVE_CLIENTS\<close>: the new \<open>PREV_STATUS\<close> and the
  notifications sent, or the exception raised before anything changed. \<open>PREV_STATUS.get(mac)\<close>
  is \<open>None\<close> for an absent key and for a key whose stored value is \<open>None\<close>.
\<close>

definition diff_entry :: "config \<Rightarrow> json \<Rightarrow> (pykey \<times> json) list \<Rightarrow> exn + (pykey \<times> json) list \<times> event list" where
  "diff_entry cfg dev prev_status =
     (case dev of
        JObj d \<Rightarrow>
          (case map_of d ''mac'' of
             None \<Rightarrow> Inl KeyError
           | Some mac \<Rightarrow>
               (case key_of mac of
                  Inl e \<Rightarrow> Inl e
                | Inr k \<Rightarrow>
                    (let prev = (case map_of prev_status k of None \<Rightarrow> JNull | Some p \<Rightarrow> p);
                         current = dict_get d ''active'' (JBool False)
                     in Inr (AList.update k current prev_status,
                             if prev \<noteq> JNull \<and> \<not> py_eq prev current
                             then [\<lparr>ev_connected = truthy current,
                                    ev_name = py_or (py_or (dict_get d ''name'' JNull) (dict_get d ''hostname'' JNull)) mac,
                                    ev_mac = mac,
                                    ev_ip = dict_get d ''ip'' (JStr ''-''),
                                    ev_wifi = (map_of d ''ssid'' \<noteq> None),
                                    ev_chat_ids = ALLOWED_USERS cfg\<rparr>]
                             else []))))
      | _ \<Rightarrow> Inl TypeError)"

text \<open>
  The \<open>for\<close> loop: it ends at the end of the list or at the first exception, which the
  \<open>except\<close> clause around the cycle catches. The result keeps what was done until then.
\<close>

fun diff_loop :: "config \<Rightarrow> json list \<Rightarrow> (pykey \<times> json) list \<Rightarrow> event list \<Rightarrow> exn option \<times> (pykey \<times> json) list \<times> event list" where
  "diff_loop cfg [] prev_status evs = (None, prev_status, evs)"
| "diff_loop cfg (d # ds) prev_status evs =
     (case diff_entry cfg d prev_status of
        Inl e \<Rightarrow> (Some e, prev_status, evs)
      | Inr (prev_status', new) \<Rightarrow> diff_loop cfg ds prev_status' (evs @ new))"

text \<open>One iteration of \<open>while True\<close>: the state after it, the notifications, the exception caught.\<close>

definition poll_cycle :: "config \<Rightarrow> router \<Rightarrow> state \<Rightarrow> state \<times> event list \<times> exn option" where
  "poll_cycle cfg router s =
     (let s1 = update_clients cfg router s;
          (caught, prev_status', evs) = diff_loop cfg (ACTIVE_CLIENTS s1) (PREV_STATUS s1) []
      in (s1\<lparr>PREV_STATUS := prev_status'\<rparr>, evs, caught))"

text \<open>
  The loop of \<open>check_status_change\<close> never ends; its first \<open>n\<close> iterations give the state
  reached and the notifications sent in order.
\<close>

fun check_status_change :: "nat \<Rightarrow> config \<Rightarrow> router \<Rightarrow> state \<Rightarrow> state \<times> event list" where
  "check_status_change 0 cfg router s = (s, [])"
| "check_status_change (Suc n) cfg router s =
     (let (s1, evs, caught) = poll_cycle cfg router s;
          (s2, evs') = check_status_change n cfg router s1
      in (s2, evs @ evs'))"

section \<open>Memory accounting of the start handler\<close>


text \<open>\<open>int.bit_length\<close> of a positive integer.\<close>

function bit_length :: "int \<Rightarrow> int" where
  "bit_length n = (if n \<le> 0 then 0 else 1 + bit_length (n div 2))"
  by pat_completeness auto
termination
  by (relation "measure nat") auto

declare bit_length.simps [simp del]

definition pow2 :: "int \<Rightarrow> rat" where
  "pow2 e = (if 0 \<le> e then 2 ^ nat e else 1 / 2 ^ nat (- e))"

text \<open>The exponent \<open>e\<close> of a positive rational: \<open>2 ^ e \<le> x < 2 ^ (e + 1)\<close>.\<close>

definition binary_exponent :: "rat \<Rightarrow> int" where
  "binary_exponent x =
     (if 1 \<le> x then bit_length \<lfloor>x\<rfloor> - 1 else - bit_length (\<lceil>1 / x\<rceil> - 1))"










section \<open>Notions for stating the properties\<close>

fun is_dict :: "json \<Rightarrow> bool" where
  "is_dict (JObj d) = True"
| "is_dict _ = False"

fun is_bool :: "json \<Rightarrow> bool" where
  "is_bool (JBool b) = True"
| "is_bool _ = False"

text \<open>A field of a device entry, if the entry is a dict and has it.\<close>

definition dev_field :: "string \<Rightarrow> json \<Rightarrow> json option" where
  "dev_field name dev = (case dev of JObj d \<Rightarrow> map_of d name | _ \<Rightarrow> None)"

text \<open>The sort key as a total function (entries of the sorted list are dicts).\<close>

definition ip_key :: "json \<Rightarrow> int list" where
  "ip_key dev = (case ip_sort dev of Inl e \<Rightarrow> [] | Inr t \<Rightarrow> t)"

text \<open>A well-formed IP address: four dot-separated decimal numbers up to 255; its octets.\<close>

definition well_formed_ip :: "string \<Rightarrow> bool" where
  "well_formed_ip s =
     (length (split_on CHR ''.'' s) = 4 \<and> list_all isdigit (split_on CHR ''.'' s) \<and>
      list_all (\<lambda>p. dec_val p \<le> 255) (split_on CHR ''.'' s))"

definition octets :: "string \<Rightarrow> int list" where
  "octets s = map (\<lambda>p. int (dec_val p)) (split_on CHR ''.'' s)"

text \<open>
  The key under which an entry of \<open>ACTIVE_CLIENTS\<close> is recorded in \<open>PREV_STATUS\<close>
  (or the exception that \<open>d['mac']\<close> or the lookup raises), and its current active value.
\<close>

definition entry_key :: "json \<Rightarrow> exn + pykey" where
  "entry_key dev =
     (case dev of
        JObj d \<Rightarrow> (case map_of d ''mac'' of None \<Rightarrow> Inl KeyError | Some mac \<Rightarrow> key_of mac)
      | _ \<Rightarrow> Inl TypeError)"

definition entry_current :: "json \<Rightarrow> json" where
  "entry_current dev = (case dev of JObj d \<Rightarrow> dict_get d ''active'' (JBool False) | _ \<Rightarrow> JNull)"


section \<open>Example inputs\<close>

definition example_config :: config where
  "example_config =
     \<lparr>WIFI_HOST = ''http://192.168.1.1'', WIFI_LOGIN = ''admin'', WIFI_PASSWORD = ''secret'',
      ALLOWED_USERS = [1001]\<rparr>"

text \<open>Stand-ins for the two hash functions that show what was hashed.\<close>

definition example_hashlib :: hashlib where
  "example_hashlib =
     \<lparr>md5_hexdigest = (\<lambda>s. ''md5<'' @ s @ ''>''), sha256_hexdigest = (\<lambda>s. ''sha256<'' @ s @ ''>'')\<rparr>"

definition unauthorized :: "(string \<times> string) list \<Rightarrow> response" where
  "unauthorized hs = \<lparr>status_code = 401, headers = hs, json_body = Not_JSON\<rparr>"

text \<open>A router that cannot be reached: every request raises.\<close>

definition router_down :: router where
  "router_down sent req = Raises"

text \<open>A router whose session has expired: every request is answered 401.\<close>

definition router_expired :: router where
  "router_expired sent req =
     Returns (unauthorized [(''x-ndm-realm'', ''Keenetic''), (''x-ndm-challenge'', ''NONCE'')])"

definition router_no_challenge :: router where
  "router_no_challenge sent req = Returns (unauthorized [(''x-ndm-realm'', ''Keenetic'')])"

definition router_login :: router where
  "router_login sent req =
     (case req of
        GET url a \<Rightarrow>
          Returns (unauthorized [(''x-ndm-realm'', ''Keenetic''), (''x-ndm-challenge'', ''NONCE'')])
      | POST url b \<Rightarrow> Returns \<lparr>status_code = 200, headers = [], json_body = Not_JSON\<rparr>)"

text \<open>A router that answers 300 Multiple Choices with a JSON body.\<close>

definition router_multiple_choices :: router where
  "router_multiple_choices sent req =
     Returns \<lparr>status_code = 300, headers = [],
              json_body = Parsed (JObj [(''host'', JArr [JObj [(''mac'', JStr ''A'')]])])\<rparr>"

text \<open>Devices and router answers used in the examples below.\<close>

definition dev_20 :: json where
  "dev_20 = JObj [(''mac'', JStr ''AA:00:00:00:00:20''), (''ip'', JStr ''10.0.0.20''), (''active'', JBool True)]"

definition dev_5 :: json where
  "dev_5 = JObj [(''mac'', JStr ''AA:00:00:00:00:05''), (''ip'', JStr ''10.0.0.5''), (''active'', JBool True)]"

definition dev_1 :: json where
  "dev_1 = JObj [(''mac'', JStr ''AA:00:00:00:00:01''), (''ip'', JStr ''10.0.0.1''), (''active'', JBool True)]"

definition dev_zero :: json where
  "dev_zero = JObj [(''mac'', JStr ''AA:00:00:00:00:00''), (''ip'', JStr ''0.0.0.0''), (''active'', JBool False)]"

definition dev_no_ip :: json where
  "dev_no_ip = JObj [(''mac'', JStr ''AA:00:00:00:00:FF''), (''active'', JBool False)]"

definition dev_malformed :: json where
  "dev_malformed = JObj [(''mac'', JStr ''AA:00:00:00:00:EE''), (''ip'', JStr ''192.168.1.x''), (''active'', JBool True)]"

text \<open>A router that answers every request 200 with the given host array.\<close>

definition router_hosts :: "json list \<Rightarrow> router" where
  "router_hosts hs sent req =
     Returns \<lparr>status_code = 200, headers = [], json_body = Parsed (JObj [(''host'', JArr hs)])\<rparr>"

definition initial_state :: state where
  "initial_state = \<lparr>ACTIVE_CLIENTS = [], PREV_STATUS = [], requests_sent = []\<rparr>"

text \<open>More devices, a state in which two devices were seen before, a router that fails once.\<close>

definition dev_5_off :: json where
  "dev_5_off = JObj [(''mac'', JStr ''AA:00:00:00:00:05''), (''ip'', JStr ''10.0.0.5''), (''active'', JBool False)]"

definition dev_no_mac :: json where
  "dev_no_mac = JObj [(''ip'', JStr ''10.0.0.7''), (''active'', JBool True)]"

definition state_seen :: state where
  "state_seen =
     \<lparr>ACTIVE_CLIENTS = [],
      PREV_STATUS = [(KStr ''AA:00:00:00:00:05'', JBool True), (KStr ''AA:00:00:00:00:20'', JBool False)],
      requests_sent = []\<rparr>"

definition router_flaky :: router where
  "router_flaky sent req =
     (if sent = [] then Raises
      else Returns \<lparr>status_code = 200, headers = [], json_body = Parsed (JObj [(''host'', JArr [dev_5])])\<rparr>)"



section \<open>The authentication handshake\<close>

text \<open>
  Claim C9. When the probe of \<open>keen_auth\<close> is answered 401 and the realm header or the
  challenge header is missing or empty (\<open>headers.get(name, '')\<close> is the empty string), the
  call returns \<open>False\<close> and its only request is the probe: no POST is made.
\<close>

theorem keen_auth_missing_header:
  assumes "router sent (GET (WIFI_HOST cfg @ ''/auth'') None) = Returns resp"
    and "status_code resp = 401"
    and "headers_get (headers resp) ''X-NDM-Realm'' '''' = [] \<or>
         headers_get (headers resp) ''X-NDM-Challenge'' '''' = []"
  shows "keen_auth hl cfg router sent = (False, sent @ [GET (WIFI_HOST cfg @ ''/auth'') None]) \<and>
         \<not> list_ex is_post (drop (length sent) (snd (keen_auth hl cfg router sent)))"
  using assms by (auto simp: keen_auth_def session_send_def Let_def)

theorem keen_auth_missing_header_witness:
  "router_no_challenge [] (GET (WIFI_HOST example_config @ ''/auth'') None)
     = Returns (unauthorized [(''x-ndm-realm'', ''Keenetic'')]) \<and>
   status_code (unauthorized [(''x-ndm-realm'', ''Keenetic'')]) = 401 \<and>
   headers_get (headers (unauthorized [(''x-ndm-realm'', ''Keenetic'')])) ''X-NDM-Challenge'' '''' = [] \<and>
   keen_auth example_hashlib example_config router_no_challenge []
     = (False, [GET (WIFI_HOST example_config @ ''/auth'') None])"
  using keen_auth_missing_header
    [of router_no_challenge "[]" example_config "unauthorized [(''x-ndm-realm'', ''Keenetic'')]"
        example_hashlib]
  by (simp add: router_no_challenge_def unauthorized_def headers_get_def lower_char_def)

text \<open>
  Claim C7. For every login, password, realm and challenge: after a 401 probe carrying both
  headers, \<open>keen_auth\<close> posts as password the SHA-256 hex digest of the challenge followed by
  the MD5 hex digest of \<open>login:realm:password\<close>. The digest is a function of these four
  strings alone. (The two digests are \<open>hashlib\<close>'s; the repository holds no test vector.)
\<close>

theorem keen_auth_digest:
  assumes "router sent (GET (WIFI_HOST cfg @ ''/auth'') None) = Returns resp"
    and "status_code resp = 401"
    and "headers_get (headers resp) ''X-NDM-Realm'' '''' = realm"
    and "headers_get (headers resp) ''X-NDM-Challenge'' '''' = challenge"
    and "realm \<noteq> []" and "challenge \<noteq> []"
  shows "snd (keen_auth hl cfg router sent) =
           sent @ [GET (WIFI_HOST cfg @ ''/auth'') None,
                   POST (WIFI_HOST cfg @ ''/auth'')
                     (JObj [(''login'', JStr (WIFI_LOGIN cfg)),
                            (''password'',
                             JStr (sha256_hexdigest hl
                                    (challenge @
                                     md5_hexdigest hl
                                       (WIFI_LOGIN cfg @ '':'' @ realm @ '':'' @ WIFI_PASSWORD cfg))))])]"
  using assms by (auto simp: keen_auth_def session_send_def Let_def split: reply.splits)

theorem keen_auth_digest_witness:
  "router_login [] (GET (WIFI_HOST example_config @ ''/auth'') None)
     = Returns (unauthorized [(''x-ndm-realm'', ''Keenetic''), (''x-ndm-challenge'', ''NONCE'')]) \<and>
   headers_get (headers (unauthorized [(''x-ndm-realm'', ''Keenetic''), (''x-ndm-challenge'', ''NONCE'')]))
     ''X-NDM-Realm'' '''' = ''Keenetic'' \<and>
   headers_get (headers (unauthorized [(''x-ndm-realm'', ''Keenetic''), (''x-ndm-challenge'', ''NONCE'')]))
     ''X-NDM-Challenge'' '''' = ''NONCE'' \<and>
   snd (keen_auth example_hashlib example_config router_login []) =
     [GET ''http://192.168.1.1/auth'' None,
      POST ''http://192.168.1.1/auth''
        (JObj [(''login'', JStr ''admin''),
               (''password'', JStr ''sha256<NONCEmd5<admin:Keenetic:secret>>'')])]"
  using keen_auth_digest
    [of router_login "[]" example_config
        "unauthorized [(''x-ndm-realm'', ''Keenetic''), (''x-ndm-challenge'', ''NONCE'')]"
        "''Keenetic''" "''NONCE''" example_hashlib]
  by (simp add: router_login_def unauthorized_def headers_get_def lower_char_def
      example_config_def example_hashlib_def)

section \<open>Data queries\<close>

text \<open>
  Claim C8, as the code has it. For every path, \<open>keen_get\<close> returns the empty dict, and so
  does not raise, when the request raises, when the status is in the range 400 to 599 that
  \<open>raise_for_status\<close> rejects, and when the body is not JSON (\<open>r.json()\<close> raises a
  \<open>ValueError\<close>). An answer with any other status, 2xx or not, whose body parses is
  returned as parsed.
\<close>

theorem keen_get_soft_failure:
  fixes cfg router path sent
  defines "req \<equiv> GET (WIFI_HOST cfg @ ''/rci/show/'' @ path) (Some (WIFI_LOGIN cfg, WIFI_PASSWORD cfg))"
  shows
    "(router sent req = Raises \<longrightarrow> fst (keen_get cfg router path sent) = Inr (JObj [])) \<and>
     (\<forall>r. router sent req = Returns r \<and> 400 \<le> status_code r \<and> status_code r < 600
        \<longrightarrow> fst (keen_get cfg router path sent) = Inr (JObj [])) \<and>
     (\<forall>r. router sent req = Returns r \<and> json_body r = Not_JSON
        \<longrightarrow> fst (keen_get cfg router path sent) = Inr (JObj [])) \<and>
     (\<forall>r j. router sent req = Returns r \<and> \<not> (400 \<le> status_code r \<and> status_code r < 600) \<and>
          json_body r = Parsed j
        \<longrightarrow> fst (keen_get cfg router path sent) = Inr j)"
  unfolding req_def
  by (auto simp: keen_get_def session_send_def try_except_def raise_for_status_def response_json_def
      split: reply.splits sum.splits body.splits)

theorem keen_get_soft_failure_witness:
  "router_down []
     (GET (WIFI_HOST example_config @ ''/rci/show/'' @ ''system'')
        (Some (WIFI_LOGIN example_config, WIFI_PASSWORD example_config))) = Raises \<and>
   fst (keen_get example_config router_down ''system'' []) = Inr (JObj []) \<and>
   router_expired []
     (GET (WIFI_HOST example_config @ ''/rci/show/'' @ ''system'')
        (Some (WIFI_LOGIN example_config, WIFI_PASSWORD example_config)))
     = Returns (unauthorized [(''x-ndm-realm'', ''Keenetic''), (''x-ndm-challenge'', ''NONCE'')]) \<and>
   400 \<le> status_code (unauthorized [(''x-ndm-realm'', ''Keenetic''), (''x-ndm-challenge'', ''NONCE'')]) \<and>
   status_code (unauthorized [(''x-ndm-realm'', ''Keenetic''), (''x-ndm-challenge'', ''NONCE'')]) < 600 \<and>
   json_body (unauthorized [(''x-ndm-realm'', ''Keenetic''), (''x-ndm-challenge'', ''NONCE'')]) = Not_JSON \<and>
   fst (keen_get example_config router_expired ''system'' []) = Inr (JObj []) \<and>
   router_hosts [dev_5] []
     (GET (WIFI_HOST example_config @ ''/rci/show/'' @ ''device-list'')
        (Some (WIFI_LOGIN example_config, WIFI_PASSWORD example_config)))
     = Returns \<lparr>status_code = 200, headers = [], json_body = Parsed (JObj [(''host'', JArr [dev_5])])\<rparr> \<and>
   fst (keen_get example_config (router_hosts [dev_5]) ''device-list'' [])
     = Inr (JObj [(''host'', JArr [dev_5])])"
proof -
  have h1: "router_down []
     (GET (WIFI_HOST example_config @ ''/rci/show/'' @ ''system'')
        (Some (WIFI_LOGIN example_config, WIFI_PASSWORD example_config))) = Raises"
    by (simp add: router_down_def)
  have h2: "router_expired []
     (GET (WIFI_HOST example_config @ ''/rci/show/'' @ ''system'')
        (Some (WIFI_LOGIN example_config, WIFI_PASSWORD example_config)))
     = Returns (unauthorized [(''x-ndm-realm'', ''Keenetic''), (''x-ndm-challenge'', ''NONCE'')]) \<and>
     400 \<le> status_code (unauthorized [(''x-ndm-realm'', ''Keenetic''), (''x-ndm-challenge'', ''NONCE'')]) \<and>
     status_code (unauthorized [(''x-ndm-realm'', ''Keenetic''), (''x-ndm-challenge'', ''NONCE'')]) < 600 \<and>
     json_body (unauthorized [(''x-ndm-realm'', ''Keenetic''), (''x-ndm-challenge'', ''NONCE'')]) = Not_JSON"
    by (simp add: router_expired_def unauthorized_def)
  have h3: "router_hosts [dev_5] []
     (GET (WIFI_HOST example_config @ ''/rci/show/'' @ ''device-list'')
        (Some (WIFI_LOGIN example_config, WIFI_PASSWORD example_config)))
     = Returns \<lparr>status_code = 200, headers = [], json_body = Parsed (JObj [(''host'', JArr [dev_5])])\<rparr>"
    by (simp add: router_hosts_def)
  have c1: "fst (keen_get example_config router_down ''system'' []) = Inr (JObj [])"
    using keen_get_soft_failure [of router_down "[]" example_config "''system''"] h1 by blast
  have c2: "fst (keen_get example_config router_expired ''system'' []) = Inr (JObj [])"
    using keen_get_soft_failure [of router_expired "[]" example_config "''system''"] h2 by blast
  have "\<not> (400 \<le> status_code \<lparr>status_code = 200, headers = [], json_body = Parsed (JObj [(''host'', JArr [dev_5])])\<rparr> \<and>
        status_code \<lparr>status_code = 200, headers = [], json_body = Parsed (JObj [(''host'', JArr [dev_5])])\<rparr> < 600) \<and>
      json_body \<lparr>status_code = 200, headers = [], json_body = Parsed (JObj [(''host'', JArr [dev_5])])\<rparr>
        = Parsed (JObj [(''host'', JArr [dev_5])])"
    by simp
  then have c3: "fst (keen_get example_config (router_hosts [dev_5]) ''device-list'' [])
     = Inr (JObj [(''host'', JArr [dev_5])])"
    using keen_get_soft_failure [of "router_hosts [dev_5]" "[]" example_config "''device-list''"] h3
    by blast
  show ?thesis using h1 h2 h3 c1 c2 c3 by simp
qed

text \<open>
  The claim as the specification words it, "any non-2xx status", fails: the status 300 is
  not 2xx, and the parsed body comes back instead of the empty dict.
\<close>

theorem keen_get_non_2xx_counterexample:
  "router_multiple_choices []
     (GET ''http://192.168.1.1/rci/show/device-list'' (Some (''admin'', ''secret'')))
     = Returns \<lparr>status_code = 300, headers = [],
                json_body = Parsed (JObj [(''host'', JArr [JObj [(''mac'', JStr ''A'')]])])\<rparr> \<and>
   \<not> (200 \<le> (300::int) \<and> (300::int) < 300) \<and>
   fst (keen_get example_config router_multiple_choices ''device-list'' [])
     = Inr (JObj [(''host'', JArr [JObj [(''mac'', JStr ''A'')]])]) \<and>
   fst (keen_get example_config router_multiple_choices ''device-list'' []) \<noteq> Inr (JObj [])"
  by (simp add: keen_get_def session_send_def try_except_def raise_for_status_def response_json_def
      router_multiple_choices_def example_config_def)

text \<open>
  A body nested too deeply for the parser is the one answer on which \<open>keen_get\<close> raises:
  the \<open>RecursionError\<close> is neither a \<open>ValueError\<close> nor a \<open>RequestException\<close>.
\<close>

lemma keen_get_too_deep:
  assumes "router sent (GET (WIFI_HOST cfg @ ''/rci/show/'' @ path) (Some (WIFI_LOGIN cfg, WIFI_PASSWORD cfg)))
             = Returns r"
    and "\<not> (400 \<le> status_code r \<and> status_code r < 600)"
    and "json_body r = Too_Deep"
  shows "fst (keen_get cfg router path sent) = Inl RecursionError"
  using assms
  by (auto simp: keen_get_def session_send_def try_except_def raise_for_status_def response_json_def)

section \<open>The device list is sorted by IP\<close>

lemma collect_map: "map f xs = map Inr ys \<Longrightarrow> collect f xs = Inr ys"
  by (induction xs arbitrary: ys) auto

lemma collect_Inr_iff: "collect f xs = Inr ys \<longleftrightarrow> map f xs = map Inr ys"
proof
  show "collect f xs = Inr ys \<Longrightarrow> map f xs = map Inr ys"
    by (induction xs arbitrary: ys) (auto split: sum.splits)
qed (rule collect_map)

lemma map_snd_insort_key:
  "\<forall>p\<in>set ps. fst p = g (snd p) \<Longrightarrow>
   map snd (insort_key fst (g x, x) ps) = insort_key g x (map snd ps)"
  by (induction ps) auto

lemma undecorate_sort_key:
  assumes "collect f xs = Inr ks" and "\<And>x k. f x = Inr k \<Longrightarrow> g x = k"
  shows "map snd (sort_key fst (zip ks xs)) = sort_key g xs"
  using assms(1)
proof (induction xs arbitrary: ks)
  case Nil
  then show ?case by simp
next
  case (Cons x xs)
  then obtain k ks' where k: "f x = Inr k" and ks': "collect f xs = Inr ks'" and ks: "ks = k # ks'"
    by (auto split: sum.splits)
  have rel: "\<forall>p\<in>set (sort_key fst (zip ks' xs)). fst p = g (snd p)"
  proof
    fix p assume "p \<in> set (sort_key fst (zip ks' xs))"
    then have "p \<in> set (zip ks' xs)" by simp
    then obtain i where "i < length xs" "i < length ks'" "p = (ks' ! i, xs ! i)"
      by (auto simp: set_zip)
    moreover from ks' have "map f xs = map Inr ks'" by (simp add: collect_Inr_iff)
    ultimately have "f (snd p) = Inr (fst p)"
      by (metis fst_conv snd_conv nth_map)
    then show "fst p = g (snd p)" using assms(2) by simp
  qed
  have "g x = k" using k assms(2) by simp
  then show ?case
    using Cons.IH [OF ks'] map_snd_insort_key [OF rel, of x] ks by simp
qed

lemma py_sorted_ip_sort:
  "py_sorted ip_sort hs = Inr out \<Longrightarrow> out = sort_key ip_key hs \<and> list_all is_dict hs"
proof -
  assume a: "py_sorted ip_sort hs = Inr out"
  then obtain ks where ks: "collect ip_sort hs = Inr ks" and out: "out = map snd (sort_key fst (zip ks hs))"
    by (auto simp: py_sorted_def split: sum.splits)
  have "out = sort_key ip_key hs"
    unfolding out by (rule undecorate_sort_key [OF ks]) (simp add: ip_key_def)
  moreover have "list_all is_dict hs"
  proof -
    from ks have m: "map ip_sort hs = map Inr ks" by (simp add: collect_Inr_iff)
    have "\<forall>h\<in>set hs. is_dict h"
    proof
      fix h assume "h \<in> set hs"
      then obtain i where "i < length hs" "h = hs ! i" by (auto simp: in_set_conv_nth)
      with m have "ip_sort h = Inr (ks ! i)" by (metis length_map nth_map)
      then show "is_dict h" by (cases h) (auto simp: ip_sort_def)
    qed
    then show ?thesis by (simp add: list_all_iff)
  qed
  ultimately show ?thesis by simp
qed

lemma py_sorted_dicts:
  "list_all is_dict hs \<Longrightarrow> py_sorted ip_sort hs = Inr (sort_key ip_key hs)"
proof -
  assume d: "list_all is_dict hs"
  have "\<exists>ks. collect ip_sort hs = Inr ks" using d
  proof (induction hs)
    case Nil then show ?case by simp
  next
    case (Cons h hs)
    then obtain ks where "collect ip_sort hs = Inr ks" by auto
    moreover from Cons.prems obtain k where "ip_sort h = Inr k"
      by (cases h) (auto simp: ip_sort_def)
    ultimately show ?case by simp
  qed
  then obtain ks where ks: "collect ip_sort hs = Inr ks" ..
  then have "py_sorted ip_sort hs = Inr (map snd (sort_key fst (zip ks hs)))"
    by (simp add: py_sorted_def)
  moreover have "map snd (sort_key fst (zip ks hs)) = sort_key ip_key hs"
    by (rule undecorate_sort_key [OF ks]) (simp add: ip_key_def)
  ultimately show ?thesis by simp
qed

lemma py_sorted_strings:
  "xs \<noteq> [] \<Longrightarrow> py_sorted ip_sort (map (\<lambda>x. JStr (f x)) xs) = Inl AttributeError"
  by (cases xs) (auto simp: py_sorted_def ip_sort_def)

lemma device_list_Inr:
  "device_list data = Inr out \<Longrightarrow>
   out = [] \<or> (\<exists>d hs. data = JObj d \<and> map_of d ''host'' = Some (JArr hs) \<and> hs \<noteq> [] \<and>
                list_all is_dict hs \<and> out = sort_key ip_key hs)"
  by (auto simp: device_list_def dict_get_def Let_def py_sorted_strings
      split: if_splits json.splits option.splits dest: py_sorted_ip_sort)

lemma update_clients_clients:
  "ACTIVE_CLIENTS (update_clients cfg router s) = [] \<or>
   (\<exists>d hs. fst (keen_get cfg router ''device-list'' (requests_sent s)) = Inr (JObj d) \<and>
      map_of d ''host'' = Some (JArr hs) \<and> hs \<noteq> [] \<and> list_all is_dict hs \<and>
      ACTIVE_CLIENTS (update_clients cfg router s) = sort_key ip_key hs)"
  by (auto simp: update_clients_def catch_all_def split: prod.splits sum.splits dest: device_list_Inr)


lemma digit_not_space: "is_digit_char c \<Longrightarrow> \<not> is_space_char c"
  by (auto simp: is_digit_char_def is_space_char_def)

lemma digit_not_sign: "is_digit_char c \<Longrightarrow> c \<noteq> CHR ''-'' \<and> c \<noteq> CHR ''+'' \<and> c \<noteq> CHR ''_''"
  by (auto simp: is_digit_char_def)

lemma split_on_absent: "sep \<notin> set s \<Longrightarrow> split_on sep s = [s]"
  by (induction s) auto

lemma strip_digits: "isdigit p \<Longrightarrow> strip p = p"
proof -
  assume d: "isdigit p"
  then have ne: "p \<noteq> []" and all: "\<forall>c\<in>set p. is_digit_char c"
    by (auto simp: isdigit_def list_all_iff)
  have "\<not> is_space_char (hd p)" using ne all digit_not_space by simp
  then have 1: "dropWhile is_space_char p = p" using ne by (cases p) auto
  have "\<not> is_space_char (hd (rev p))" using ne all digit_not_space by (simp add: hd_rev)
  then have 2: "dropWhile is_space_char (rev p) = rev p" using ne by (cases "rev p") auto
  show ?thesis by (simp add: strip_def 1 2)
qed

lemma int_of_str_digits: "isdigit p \<Longrightarrow> int_of_str p = Inr (int (dec_val p))"
proof -
  assume d: "isdigit p"
  then obtain c cs where p: "p = c # cs" and c: "is_digit_char c" and all: "\<forall>x\<in>set p. is_digit_char x"
    by (cases p) (auto simp: isdigit_def list_all_iff)
  have "CHR ''_'' \<notin> set p" using all digit_not_sign by blast
  then have s: "split_on CHR ''_'' p = [p]" by (rule split_on_absent)
  show ?thesis
    using digit_not_sign [OF c] d s
    by (simp add: int_of_str_def strip_digits [OF d] p [symmetric]) (simp add: p)
qed

lemma collect_int_of_str:
  "list_all isdigit ps \<Longrightarrow> collect int_of_str ps = Inr (map (\<lambda>p. int (dec_val p)) ps)"
  by (induction ps) (auto simp: int_of_str_digits)

lemma ip_key_well_formed:
  "map_of d ''ip'' = Some (JStr a) \<Longrightarrow> well_formed_ip a \<Longrightarrow> ip_key (JObj d) = octets a"
  by (simp add: ip_key_def ip_sort_def dict_get_def well_formed_ip_def octets_def
      collect_int_of_str list_all_iff cong: filter_cong)

lemma ip_key_no_string:
  "\<forall>a. map_of d ''ip'' \<noteq> Some (JStr a) \<Longrightarrow> ip_key (JObj d) = [0, 0, 0, 0]"
  by (auto simp: ip_key_def ip_sort_def dict_get_def isdigit_def is_digit_char_def
      int_of_str_def strip_def is_space_char_def dec_val_def split: option.splits json.splits)

lemma octets_le_zero:
  "well_formed_ip a \<Longrightarrow> octets a \<le> [0, 0, 0, 0] \<Longrightarrow> octets a = [0, 0, 0, 0]"
proof -
  assume wf: "well_formed_ip a" and le: "octets a \<le> [0, 0, 0, 0]"
  from wf obtain p q r t where ps: "split_on CHR ''.'' a = [p, q, r, t]"
    by (auto simp: well_formed_ip_def length_Suc_conv numeral_eq_Suc)
  show ?thesis using le by (auto simp: octets_def ps split: if_splits)
qed


lemmas eval_defs =
  update_clients_def keen_get_def session_send_def try_except_def raise_for_status_def
  response_json_def catch_all_def device_list_def dict_get_def py_sorted_def ip_sort_def
  isdigit_def is_digit_char_def int_of_str_def strip_def is_space_char_def dec_val_def
  router_hosts_def initial_state_def example_config_def

text \<open>
  Claim C5, as the code has it. Whatever the router answers, the list that \<open>update_clients\<close>
  stores is sorted by the key of \<open>ip_sort\<close>. Hence two devices with well-formed IPs stand in
  the numeric order of their octets, compared octet by octet, and a device whose IP is missing
  (or is not a string) has the key \<open>(0, 0, 0, 0)\<close>: no device with a well-formed IP other
  than 0.0.0.0 stands before it. Devices with the IPs 10.0.0.20, 10.0.0.5 and none are stored
  as (none), 10.0.0.5, 10.0.0.20, although as strings 10.0.0.20 is the smaller.
  (A malformed IP string is keyed by its all-digit parts and may stand anywhere.)
\<close>

theorem update_clients_sorted_by_ip:
  fixes cfg router s
  defines "out \<equiv> ACTIVE_CLIENTS (update_clients cfg router s)"
  shows "sorted (map ip_key out) \<and>
    (\<forall>i j a b. i < j \<and> j < length out \<and>
        dev_field ''ip'' (out ! i) = Some (JStr a) \<and> well_formed_ip a \<and>
        dev_field ''ip'' (out ! j) = Some (JStr b) \<and> well_formed_ip b
        \<longrightarrow> octets a \<le> octets b) \<and>
    (\<forall>i j a. i < j \<and> j < length out \<and>
        dev_field ''ip'' (out ! i) = Some (JStr a) \<and> well_formed_ip a \<and>
        (\<forall>b. dev_field ''ip'' (out ! j) \<noteq> Some (JStr b))
        \<longrightarrow> octets a = [0, 0, 0, 0]) \<and>
    ACTIVE_CLIENTS (update_clients example_config (router_hosts [dev_20, dev_5, dev_no_ip]) initial_state)
      = [dev_no_ip, dev_5, dev_20] \<and>
    ''10.0.0.20'' < ''10.0.0.5''"
proof -
  have "\<exists>hs. out = sort_key ip_key hs \<and> list_all is_dict hs"
  proof (cases "out = []")
    case True
    then have "out = sort_key ip_key [] \<and> list_all is_dict []" by simp
    then show ?thesis by blast
  next
    case False
    then show ?thesis
      using update_clients_clients [of cfg router s] unfolding out_def by blast
  qed
  then obtain hs where out: "out = sort_key ip_key hs" and dicts: "list_all is_dict hs"
    by blast
  have srt: "sorted (map ip_key out)" by (simp add: out)
  have dict: "\<exists>d. out ! i = JObj d" if "i < length out" for i
  proof -
    have "out ! i \<in> set hs" using that out by (metis nth_mem set_sort)
    then have "is_dict (out ! i)" using dicts by (simp add: list_all_iff)
    then show ?thesis by (cases "out ! i") auto
  qed
  have mono: "ip_key (out ! i) \<le> ip_key (out ! j)" if "i < j" "j < length out" for i j
    using srt that by (simp add: sorted_iff_nth_mono)
  have wf: "ip_key (out ! i) = octets a"
    if "i < length out" "dev_field ''ip'' (out ! i) = Some (JStr a)" "well_formed_ip a" for i a
    using dict [OF that(1)] that(2,3) by (auto simp: dev_field_def ip_key_well_formed)
  have nostr: "ip_key (out ! j) = [0, 0, 0, 0]"
    if "j < length out" "\<forall>b. dev_field ''ip'' (out ! j) \<noteq> Some (JStr b)" for j
    using dict [OF that(1)] that(2) by (auto simp: dev_field_def ip_key_no_string)
  have 2: "octets a \<le> octets b"
    if "i < j" "j < length out" "dev_field ''ip'' (out ! i) = Some (JStr a)" "well_formed_ip a"
       "dev_field ''ip'' (out ! j) = Some (JStr b)" "well_formed_ip b" for i j a b
    using mono [OF that(1,2)] wf [of i a] wf [of j b] that by simp
  have 3: "octets a = [0, 0, 0, 0]"
    if "i < j" "j < length out" "dev_field ''ip'' (out ! i) = Some (JStr a)" "well_formed_ip a"
       "\<forall>b. dev_field ''ip'' (out ! j) \<noteq> Some (JStr b)" for i j a
    using mono [OF that(1,2)] wf [of i a] nostr [of j] that octets_le_zero by simp
  have 4: "ACTIVE_CLIENTS (update_clients example_config (router_hosts [dev_20, dev_5, dev_no_ip]) initial_state)
      = [dev_no_ip, dev_5, dev_20]"
    by (simp add: eval_defs dev_20_def dev_5_def dev_no_ip_def)
  have 5: "''10.0.0.20'' < ''10.0.0.5''" by simp
  show ?thesis using srt 2 3 4 5 by blast
qed

theorem update_clients_sorted_by_ip_witness:
  "dev_field ''ip'' ([dev_no_ip, dev_5, dev_20] ! 1) = Some (JStr ''10.0.0.5'') \<and>
   well_formed_ip ''10.0.0.5'' \<and>
   dev_field ''ip'' ([dev_no_ip, dev_5, dev_20] ! 2) = Some (JStr ''10.0.0.20'') \<and>
   well_formed_ip ''10.0.0.20'' \<and>
   octets ''10.0.0.5'' \<le> octets ''10.0.0.20'' \<and>
   ACTIVE_CLIENTS (update_clients example_config (router_hosts [dev_zero, dev_no_ip]) initial_state)
     = [dev_zero, dev_no_ip] \<and>
   dev_field ''ip'' ([dev_zero, dev_no_ip] ! 0) = Some (JStr ''0.0.0.0'') \<and>
   well_formed_ip ''0.0.0.0'' \<and>
   dev_field ''ip'' ([dev_zero, dev_no_ip] ! 1) = None \<and>
   octets ''0.0.0.0'' = [0, 0, 0, 0]"
proof -
  note t1 = update_clients_sorted_by_ip
    [of example_config "router_hosts [dev_20, dev_5, dev_no_ip]" initial_state]
  note t2 = update_clients_sorted_by_ip
    [of example_config "router_hosts [dev_zero, dev_no_ip]" initial_state]
  have out1: "ACTIVE_CLIENTS (update_clients example_config (router_hosts [dev_20, dev_5, dev_no_ip]) initial_state)
      = [dev_no_ip, dev_5, dev_20]"
    using t1 by blast
  have out2: "ACTIVE_CLIENTS (update_clients example_config (router_hosts [dev_zero, dev_no_ip]) initial_state)
      = [dev_zero, dev_no_ip]"
    by (simp add: eval_defs dev_zero_def dev_no_ip_def)
  have h1: "dev_field ''ip'' ([dev_no_ip, dev_5, dev_20] ! 1) = Some (JStr ''10.0.0.5'') \<and>
      well_formed_ip ''10.0.0.5'' \<and>
      dev_field ''ip'' ([dev_no_ip, dev_5, dev_20] ! 2) = Some (JStr ''10.0.0.20'') \<and>
      well_formed_ip ''10.0.0.20''"
    by (simp add: dev_field_def dev_5_def dev_20_def well_formed_ip_def isdigit_def
        is_digit_char_def dec_val_def)
  have h2: "dev_field ''ip'' ([dev_zero, dev_no_ip] ! 0) = Some (JStr ''0.0.0.0'') \<and>
      well_formed_ip ''0.0.0.0'' \<and>
      dev_field ''ip'' ([dev_zero, dev_no_ip] ! 1) = None"
    by (simp add: dev_field_def dev_zero_def dev_no_ip_def well_formed_ip_def isdigit_def
        is_digit_char_def dec_val_def)
  have c1: "octets ''10.0.0.5'' \<le> octets ''10.0.0.20''"
  proof -
    from t1 have "\<forall>i j a b. i < j \<and> j < length [dev_no_ip, dev_5, dev_20] \<and>
        dev_field ''ip'' ([dev_no_ip, dev_5, dev_20] ! i) = Some (JStr a) \<and> well_formed_ip a \<and>
        dev_field ''ip'' ([dev_no_ip, dev_5, dev_20] ! j) = Some (JStr b) \<and> well_formed_ip b
        \<longrightarrow> octets a \<le> octets b"
      unfolding out1 by blast
    then have "(1::nat) < 2 \<and> 2 < length [dev_no_ip, dev_5, dev_20] \<and>
        dev_field ''ip'' ([dev_no_ip, dev_5, dev_20] ! 1) = Some (JStr ''10.0.0.5'') \<and> well_formed_ip ''10.0.0.5'' \<and>
        dev_field ''ip'' ([dev_no_ip, dev_5, dev_20] ! 2) = Some (JStr ''10.0.0.20'') \<and> well_formed_ip ''10.0.0.20''
        \<longrightarrow> octets ''10.0.0.5'' \<le> octets ''10.0.0.20''"
      by blast
    with h1 show ?thesis by simp
  qed
  have c2: "octets ''0.0.0.0'' = [0, 0, 0, 0]"
  proof -
    from t2 have "\<forall>i j a. i < j \<and> j < length [dev_zero, dev_no_ip] \<and>
        dev_field ''ip'' ([dev_zero, dev_no_ip] ! i) = Some (JStr a) \<and> well_formed_ip a \<and>
        (\<forall>b. dev_field ''ip'' ([dev_zero, dev_no_ip] ! j) \<noteq> Some (JStr b))
        \<longrightarrow> octets a = [0, 0, 0, 0]"
      unfolding out2 by blast
    then have "(0::nat) < 1 \<and> 1 < length [dev_zero, dev_no_ip] \<and>
        dev_field ''ip'' ([dev_zero, dev_no_ip] ! 0) = Some (JStr ''0.0.0.0'') \<and> well_formed_ip ''0.0.0.0'' \<and>
        (\<forall>b. dev_field ''ip'' ([dev_zero, dev_no_ip] ! 1) \<noteq> Some (JStr b))
        \<longrightarrow> octets ''0.0.0.0'' = [0, 0, 0, 0]"
      by blast
    with h2 show ?thesis by simp
  qed
  show ?thesis using h1 h2 c1 c2 out2 by blast
qed

text \<open>
  The claim as the specification words it fails for a malformed IP: \<open>192.168.1.x\<close> has the
  key \<open>(192, 168, 1)\<close> and is stored after the well-formed 10.0.0.1.
\<close>

theorem malformed_ip_counterexample:
  "\<not> well_formed_ip ''192.168.1.x'' \<and> well_formed_ip ''10.0.0.1'' \<and>
   dev_field ''ip'' dev_malformed = Some (JStr ''192.168.1.x'') \<and>
   dev_field ''ip'' dev_1 = Some (JStr ''10.0.0.1'') \<and>
   ACTIVE_CLIENTS (update_clients example_config (router_hosts [dev_malformed, dev_1]) initial_state)
     = [dev_1, dev_malformed]"
  by (simp add: eval_defs dev_malformed_def dev_1_def dev_field_def well_formed_ip_def)

section \<open>The device list keeps every entry of the answer\<close>

text \<open>
  Claim C6, as the code has it. After a successful poll (the answer is a dict whose
  \<open>host\<close> is an array of dicts) \<open>ACTIVE_CLIENTS\<close> holds exactly the entries of the host
  array, each as often as the array has it: nothing is removed. So no two stored entries share
  a mac if and only if no two entries of the answer do.
\<close>

theorem update_clients_keeps_entries:
  assumes "fst (keen_get cfg router ''device-list'' (requests_sent s)) = Inr (JObj d)"
    and "map_of d ''host'' = Some (JArr hs)"
    and "list_all is_dict hs"
  shows "mset (ACTIVE_CLIENTS (update_clients cfg router s)) = mset hs \<and>
         distinct (map (dev_field ''mac'') (ACTIVE_CLIENTS (update_clients cfg router s)))
           = distinct (map (dev_field ''mac'') hs)"
proof -
  have d: "d \<noteq> []" using assms(2) by auto
  have "device_list (JObj d) = Inr (sort_key ip_key hs)"
    using assms(2,3) d by (cases hs) (simp_all add: device_list_def dict_get_def py_sorted_dicts)
  then have out: "ACTIVE_CLIENTS (update_clients cfg router s) = sort_key ip_key hs"
    using assms(1) by (auto simp: update_clients_def catch_all_def split: prod.splits)
  have m: "mset (ACTIVE_CLIENTS (update_clients cfg router s)) = mset hs"
    by (simp add: out)
  then have "mset (map (dev_field ''mac'') (ACTIVE_CLIENTS (update_clients cfg router s)))
      = mset (map (dev_field ''mac'') hs)"
    by (metis mset_map)
  then have "distinct (map (dev_field ''mac'') (ACTIVE_CLIENTS (update_clients cfg router s)))
           = distinct (map (dev_field ''mac'') hs)"
    by (rule mset_eq_imp_distinct_iff)
  with m show ?thesis by simp
qed

theorem update_clients_keeps_entries_witness:
  "fst (keen_get example_config (router_hosts [dev_5, dev_1]) ''device-list'' (requests_sent initial_state))
     = Inr (JObj [(''host'', JArr [dev_5, dev_1])]) \<and>
   map_of [(''host'', JArr [dev_5, dev_1])] ''host'' = Some (JArr [dev_5, dev_1]) \<and>
   list_all is_dict [dev_5, dev_1] \<and>
   mset (ACTIVE_CLIENTS (update_clients example_config (router_hosts [dev_5, dev_1]) initial_state))
     = mset [dev_5, dev_1] \<and>
   distinct (map (dev_field ''mac'') (ACTIVE_CLIENTS (update_clients example_config (router_hosts [dev_5, dev_1]) initial_state)))"
proof -
  have h: "fst (keen_get example_config (router_hosts [dev_5, dev_1]) ''device-list'' (requests_sent initial_state))
     = Inr (JObj [(''host'', JArr [dev_5, dev_1])]) \<and>
   map_of [(''host'', JArr [dev_5, dev_1])] ''host'' = Some (JArr [dev_5, dev_1]) \<and>
   list_all is_dict [dev_5, dev_1]"
    by (simp add: keen_get_def session_send_def try_except_def raise_for_status_def
        response_json_def router_hosts_def dev_5_def dev_1_def)
  have "distinct (map (dev_field ''mac'') [dev_5, dev_1])"
    by (simp add: dev_field_def dev_5_def dev_1_def)
  then show ?thesis
    using h update_clients_keeps_entries
      [of example_config "router_hosts [dev_5, dev_1]" initial_state
          "[(''host'', JArr [dev_5, dev_1])]" "[dev_5, dev_1]"]
    by simp
qed

text \<open>The claim as stated fails: an answer with a duplicate entry is stored with the duplicate.\<close>

theorem duplicate_hosts_counterexample:
  "ACTIVE_CLIENTS (update_clients example_config (router_hosts [dev_5, dev_5]) initial_state)
     = [dev_5, dev_5] \<and>
   \<not> distinct (map (dev_field ''mac'')
         (ACTIVE_CLIENTS (update_clients example_config (router_hosts [dev_5, dev_5]) initial_state)))"
  by (simp add: eval_defs dev_5_def dev_field_def)

section \<open>Properties of the status check\<close>

lemma py_eq_refl: "py_eq v v"
  by (simp add: py_eq_def)

lemma diff_entry_raises: "entry_key dev = Inl e \<Longrightarrow> diff_entry cfg dev P = Inl e"
  by (auto simp: entry_key_def diff_entry_def split: json.splits option.splits)

lemma diff_entry_returns:
  "entry_key dev = Inr k \<Longrightarrow>
   \<exists>new. diff_entry cfg dev P = Inr (AList.update k (entry_current dev) P, new) \<and>
     (new \<noteq> [] \<longleftrightarrow> (\<exists>p. map_of P k = Some p \<and> p \<noteq> JNull \<and> \<not> py_eq p (entry_current dev))) \<and>
     length new \<le> 1 \<and>
     (\<forall>ev\<in>set new. dev_field ''mac'' dev = Some (ev_mac ev) \<and>
        ev_connected ev = truthy (entry_current dev) \<and> ev_chat_ids ev = ALLOWED_USERS cfg)"
  by (auto simp: entry_key_def entry_current_def diff_entry_def dev_field_def Let_def
      split: json.splits option.splits)

lemma diff_loop_append:
  "diff_loop cfg pre P evs = (None, P1, evs1) \<Longrightarrow>
   diff_loop cfg (pre @ rest) P evs = diff_loop cfg rest P1 evs1"
  by (induction pre arbitrary: P evs) (auto split: sum.splits)

lemma diff_loop_hashable:
  "\<forall>e\<in>set ds. \<exists>k. entry_key e = Inr k \<Longrightarrow> \<exists>P1 evs1. diff_loop cfg ds P evs = (None, P1, evs1)"
proof (induction ds arbitrary: P evs)
  case Nil
  then show ?case by simp
next
  case (Cons d ds)
  then obtain k where "entry_key d = Inr k" by auto
  then obtain new where "diff_entry cfg d P = Inr (AList.update k (entry_current d) P, new)"
    using diff_entry_returns by blast
  then show ?case using Cons by simp
qed

lemma find_snoc:
  "find Q (xs @ [x]) = (case find Q xs of Some y \<Rightarrow> Some y | None \<Rightarrow> if Q x then Some x else None)"
  by (induction xs) auto

lemma diff_loop_prev_status:
  "diff_loop cfg ds P evs = (None, P1, evs1) \<Longrightarrow>
   map_of P1 k =
     (case find (\<lambda>e. entry_key e = Inr k) (rev ds) of
        None \<Rightarrow> map_of P k
      | Some e \<Rightarrow> Some (entry_current e))"
proof (induction ds arbitrary: P evs)
  case Nil
  then show ?case by simp
next
  case (Cons d ds)
  from Cons.prems obtain k' where k': "entry_key d = Inr k'"
    by (cases "entry_key d") (auto simp: diff_entry_raises)
  then obtain new where new: "diff_entry cfg d P = Inr (AList.update k' (entry_current d) P, new)"
    using diff_entry_returns by blast
  with Cons.prems have "diff_loop cfg ds (AList.update k' (entry_current d) P) (evs @ new) = (None, P1, evs1)"
    by simp
  from Cons.IH [OF this] show ?case
    using k' by (auto simp: find_snoc update_conv' split: option.splits)
qed

lemma diff_loop_no_event:
  assumes "map_of P k = Some v"
    and "\<forall>e\<in>set ds. entry_key e = Inr k \<longrightarrow> entry_current e = v"
    and "\<forall>ev\<in>set evs. key_of (ev_mac ev) \<noteq> Inr k"
    and "diff_loop cfg ds P evs = (c, P', evs')"
  shows "(\<forall>ev\<in>set evs'. key_of (ev_mac ev) \<noteq> Inr k) \<and> map_of P' k = Some v"
  using assms
proof (induction ds arbitrary: P evs)
  case Nil
  then show ?case by simp
next
  case (Cons d ds)
  show ?case
  proof (cases "entry_key d")
    case (Inl e)
    then show ?thesis using Cons.prems by (simp add: diff_entry_raises)
  next
    case (Inr k')
    then obtain new where new: "diff_entry cfg d P = Inr (AList.update k' (entry_current d) P, new)"
      and emit: "new \<noteq> [] \<longleftrightarrow> (\<exists>p. map_of P k' = Some p \<and> p \<noteq> JNull \<and> \<not> py_eq p (entry_current d))"
      and macs: "\<forall>ev\<in>set new. dev_field ''mac'' d = Some (ev_mac ev)"
      using diff_entry_returns [of d k' cfg P] by blast
    have keys: "\<forall>ev\<in>set new. key_of (ev_mac ev) = Inr k'"
      using macs Inr by (auto simp: entry_key_def dev_field_def split: json.splits option.splits)
    have 1: "map_of (AList.update k' (entry_current d) P) k = Some v"
      using Cons.prems(1,2) Inr by (auto simp: update_conv')
    have 2: "\<forall>ev\<in>set (evs @ new). key_of (ev_mac ev) \<noteq> Inr k"
    proof (cases "k' = k")
      case True
      then have "entry_current d = v" using Cons.prems(2) Inr by simp
      then have "new = []" using emit True Cons.prems(1) py_eq_refl by auto
      then show ?thesis using Cons.prems(3) by simp
    next
      case False
      then show ?thesis using Cons.prems(3) keys by auto
    qed
    have 3: "diff_loop cfg ds (AList.update k' (entry_current d) P) (evs @ new) = (c, P', evs')"
      using Cons.prems(4) new by simp
    show ?thesis
      using Cons.IH [OF 1 _ 2 3] Cons.prems(2) by simp
  qed
qed

lemma requests_poll_cycle:
  "requests_sent (fst (poll_cycle cfg router s)) =
     requests_sent s @ [GET (WIFI_HOST cfg @ ''/rci/show/device-list'') (Some (WIFI_LOGIN cfg, WIFI_PASSWORD cfg))]"
  by (simp add: poll_cycle_def update_clients_def keen_get_def session_send_def Let_def split: prod.splits)

lemma requests_check_status_change:
  "requests_sent (fst (check_status_change n cfg router s)) =
     requests_sent s @
     replicate n (GET (WIFI_HOST cfg @ ''/rci/show/device-list'') (Some (WIFI_LOGIN cfg, WIFI_PASSWORD cfg)))"
proof (induction n arbitrary: s)
  case 0
  then show ?case by simp
next
  case (Suc n)
  have "requests_sent (fst (check_status_change (Suc n) cfg router s)) =
        requests_sent (fst (check_status_change n cfg router (fst (poll_cycle cfg router s))))"
    by (simp split: prod.splits)
  then show ?case
    by (simp add: Suc.IH requests_poll_cycle replicate_append_same)
qed

lemma update_clients_prev_status: "PREV_STATUS (update_clients cfg router s) = PREV_STATUS s"
  by (simp add: update_clients_def split: prod.splits)

lemma poll_cycle_clients: "ACTIVE_CLIENTS (fst (poll_cycle cfg router s)) = ACTIVE_CLIENTS (update_clients cfg router s)"
  by (simp add: poll_cycle_def Let_def split: prod.splits)

lemma poll_cycle_diff_loop:
  "diff_loop cfg (ACTIVE_CLIENTS (update_clients cfg router s)) (PREV_STATUS s) [] = (c, P', evs) \<Longrightarrow>
   poll_cycle cfg router s = ((update_clients cfg router s)\<lparr>PREV_STATUS := P'\<rparr>, evs, c)"
  by (simp add: poll_cycle_def Let_def update_clients_prev_status)

lemmas diff_defs =
  poll_cycle_def diff_entry_def py_eq_def py_or_def state_seen_def Let_def

lemma update_values: "set (map snd (AList.update k v P)) \<subseteq> insert v (set (map snd P))"
  by (induction P) auto

lemma diff_loop_bool:
  assumes "list_all is_bool (map snd P)"
    and "list_all (\<lambda>e. is_bool (entry_current e)) ds"
    and "diff_loop cfg ds P evs = (c, P', evs')"
  shows "list_all is_bool (map snd P')"
  using assms
proof (induction ds arbitrary: P evs)
  case Nil
  then show ?case by simp
next
  case (Cons d ds)
  show ?case
  proof (cases "entry_key d")
    case (Inl e)
    then show ?thesis using Cons.prems by (simp add: diff_entry_raises)
  next
    case (Inr k)
    then obtain new where new: "diff_entry cfg d P = Inr (AList.update k (entry_current d) P, new)"
      using diff_entry_returns [of d k cfg P] by blast
    have sub: "set (map snd (AList.update k (entry_current d) P))
        \<subseteq> insert (entry_current d) (set (map snd P))"
      by (rule update_values)
    have old: "\<forall>v\<in>set (map snd P). is_bool v"
      using Cons.prems(1) unfolding list_all_iff .
    have cur: "is_bool (entry_current d)" using Cons.prems(2) by simp
    have "\<forall>v\<in>set (map snd (AList.update k (entry_current d) P)). is_bool v"
      using sub old cur by blast
    then have "list_all is_bool (map snd (AList.update k (entry_current d) P))"
      unfolding list_all_iff .
    moreover have "list_all (\<lambda>e. is_bool (entry_current e)) ds"
      using Cons.prems(2) by simp
    moreover have "diff_loop cfg ds (AList.update k (entry_current d) P) (evs @ new) = (c, P', evs')"
      using Cons.prems(3) new by simp
    ultimately show ?thesis by (rule Cons.IH)
  qed
qed

lemma py_eq_bool: "is_bool a \<Longrightarrow> is_bool b \<Longrightarrow> py_eq a b \<longleftrightarrow> a = b"
  by (cases a; cases b) (auto simp: py_eq_def)

lemma is_bool_not_null: "is_bool a \<Longrightarrow> a \<noteq> JNull"
  by auto

text \<open>
  Claim C2. The active flag is a boolean: every value in \<open>PREV_STATUS\<close> and every entry of
  the poll has a boolean active value (an entry without the field counts as \<open>False\<close>). When
  the loop of a poll reaches a device entry with a hashable mac (\<open>P1\<close> is \<open>PREV_STATUS\<close> at
  that moment, \<open>evs1\<close> the notifications sent so far), it sends a notification for the entry
  if and only if \<open>PREV_STATUS\<close> holds a prior entry for the mac and that entry differs from
  the current active value; at most one, about this mac, with the banner of the current
  value, sent to every chat of \<open>ALLOWED_USERS\<close>. Whether or not it sent one, it stores the current value under the mac and goes on
  with the rest of the list. A device with no entry gets no notification, whatever its active
  value, and is stored.
\<close>

theorem transition_iff_prior_entry_differs:
  assumes "ACTIVE_CLIENTS (update_clients cfg router s) = pre @ dev # post"
    and "diff_loop cfg pre (PREV_STATUS s) [] = (None, P1, evs1)"
    and "entry_key dev = Inr k"
    and "list_all is_bool (map snd (PREV_STATUS s))"
    and "list_all (\<lambda>e. is_bool (entry_current e)) (pre @ [dev])"
  shows "\<exists>new.
     (new \<noteq> [] \<longleftrightarrow> (\<exists>p. map_of P1 k = Some p \<and> p \<noteq> entry_current dev)) \<and>
     (map_of P1 k = None \<longrightarrow> new = []) \<and>
     length new \<le> 1 \<and>
     (\<forall>ev\<in>set new. dev_field ''mac'' dev = Some (ev_mac ev) \<and>
        ev_connected ev = truthy (entry_current dev) \<and> ev_chat_ids ev = ALLOWED_USERS cfg) \<and>
     map_of (AList.update k (entry_current dev) P1) k = Some (entry_current dev) \<and>
     poll_cycle cfg router s =
       (case diff_loop cfg post (AList.update k (entry_current dev) P1) (evs1 @ new) of
          (caught, P', evs) \<Rightarrow> ((update_clients cfg router s)\<lparr>PREV_STATUS := P'\<rparr>, evs, caught))"
proof -
  obtain new where new: "diff_entry cfg dev P1 = Inr (AList.update k (entry_current dev) P1, new)"
    and emit0: "new \<noteq> [] \<longleftrightarrow> (\<exists>p. map_of P1 k = Some p \<and> p \<noteq> JNull \<and> \<not> py_eq p (entry_current dev))"
    and len: "length new \<le> 1"
    and evs: "\<forall>ev\<in>set new. dev_field ''mac'' dev = Some (ev_mac ev) \<and>
        ev_connected ev = truthy (entry_current dev) \<and> ev_chat_ids ev = ALLOWED_USERS cfg"
    using diff_entry_returns [OF assms(3), of cfg P1] by (elim exE conjE) simp
  have cur: "is_bool (entry_current dev)" using assms(5) by simp
  have "list_all (\<lambda>e. is_bool (entry_current e)) pre" using assms(5) by simp
  then have stored: "list_all is_bool (map snd P1)"
    using diff_loop_bool [OF assms(4) _ assms(2)] by simp
  have bools: "is_bool p" if "map_of P1 k = Some p" for p
  proof -
    have "(k, p) \<in> set P1" using that by (rule map_of_SomeD)
    then have "p \<in> set (map snd P1)" by force
    moreover have "\<forall>v\<in>set (map snd P1). is_bool v"
      using stored unfolding list_all_iff .
    ultimately show ?thesis by blast
  qed
  have emit: "new \<noteq> [] \<longleftrightarrow> (\<exists>p. map_of P1 k = Some p \<and> p \<noteq> entry_current dev)"
    unfolding emit0 using bools cur py_eq_bool is_bool_not_null by blast
  have loop: "diff_loop cfg (pre @ dev # post) (PREV_STATUS s) [] =
      diff_loop cfg post (AList.update k (entry_current dev) P1) (evs1 @ new)"
    using diff_loop_append [OF assms(2), of "dev # post"] new by simp
  obtain c P' es where res: "diff_loop cfg post (AList.update k (entry_current dev) P1) (evs1 @ new) = (c, P', es)"
    by (cases "diff_loop cfg post (AList.update k (entry_current dev) P1) (evs1 @ new)") auto
  have cyc: "poll_cycle cfg router s =
       (case diff_loop cfg post (AList.update k (entry_current dev) P1) (evs1 @ new) of
          (caught, P', evs) \<Rightarrow> ((update_clients cfg router s)\<lparr>PREV_STATUS := P'\<rparr>, evs, caught))"
    using poll_cycle_diff_loop [of cfg router s c P' es] loop res assms(1) by simp
  have first: "map_of P1 k = None \<longrightarrow> new = []" using emit by auto
  have upd: "map_of (AList.update k (entry_current dev) P1) k = Some (entry_current dev)"
    by (simp add: update_conv')
  show ?thesis
    by (rule exI [of _ new]) (intro conjI emit first len evs upd cyc)
qed

theorem transition_iff_prior_entry_differs_witness:
  "ACTIVE_CLIENTS (update_clients example_config (router_hosts [dev_5_off]) state_seen) = [] @ dev_5_off # [] \<and>
   diff_loop example_config [] (PREV_STATUS state_seen) [] = (None, PREV_STATUS state_seen, []) \<and>
   entry_key dev_5_off = Inr (KStr ''AA:00:00:00:00:05'') \<and>
   list_all is_bool (map snd (PREV_STATUS state_seen)) \<and>
   list_all (\<lambda>e. is_bool (entry_current e)) ([] @ [dev_5_off]) \<and>
   map_of (PREV_STATUS state_seen) (KStr ''AA:00:00:00:00:05'') = Some (JBool True) \<and>
   entry_current dev_5_off = JBool False \<and>
   fst (snd (poll_cycle example_config (router_hosts [dev_5_off]) state_seen)) \<noteq> []"
proof -
  have h1: "ACTIVE_CLIENTS (update_clients example_config (router_hosts [dev_5_off]) state_seen) = [] @ dev_5_off # []"
    by (simp add: eval_defs state_seen_def dev_5_off_def)
  have h2: "diff_loop example_config [] (PREV_STATUS state_seen) [] = (None, PREV_STATUS state_seen, [])"
    by simp
  have h3: "entry_key dev_5_off = Inr (KStr ''AA:00:00:00:00:05'')"
    by (simp add: entry_key_def dev_5_off_def)
  have c: "entry_current dev_5_off = JBool False"
    by (simp add: entry_current_def dev_5_off_def dict_get_def)
  have h4: "list_all is_bool (map snd (PREV_STATUS state_seen))"
    by (simp add: state_seen_def)
  have h5: "list_all (\<lambda>e. is_bool (entry_current e)) ([] @ [dev_5_off])"
    by (simp add: c)
  have p: "map_of (PREV_STATUS state_seen) (KStr ''AA:00:00:00:00:05'') = Some (JBool True)"
    by (simp add: state_seen_def)
  obtain new where
    emit: "new \<noteq> [] \<longleftrightarrow> (\<exists>p. map_of (PREV_STATUS state_seen) (KStr ''AA:00:00:00:00:05'') = Some p \<and>
             p \<noteq> entry_current dev_5_off)"
    and cyc: "poll_cycle example_config (router_hosts [dev_5_off]) state_seen =
       (case diff_loop example_config []
               (AList.update (KStr ''AA:00:00:00:00:05'') (entry_current dev_5_off) (PREV_STATUS state_seen))
               ([] @ new) of
          (caught, P', evs) \<Rightarrow>
            ((update_clients example_config (router_hosts [dev_5_off]) state_seen)\<lparr>PREV_STATUS := P'\<rparr>, evs, caught))"
    using transition_iff_prior_entry_differs [OF h1 h2 h3 h4 h5] by (elim exE conjE) simp
  have "new \<noteq> []" using emit p c by simp
  then have "fst (snd (poll_cycle example_config (router_hosts [dev_5_off]) state_seen)) \<noteq> []"
    using cyc by simp
  then show ?thesis using h1 h2 h3 h4 h5 p c by simp
qed

text \<open>
  Claim C10. If an entry of the sorted device list has no \<open>mac\<close> key and the entries before
  it have hashable macs, the cycle ends at that entry with a \<open>KeyError\<close> caught at the loop
  boundary. \<open>PREV_STATUS\<close> and the notifications are those of the entries before it: a key
  holds the active value of its last entry among them, and every other key is unchanged, so
  the entries at and after the faulty one are neither compared nor stored. The loop goes on
  with the next cycle from that state.
\<close>

theorem diff_stops_at_entry_without_mac:
  assumes "ACTIVE_CLIENTS (update_clients cfg router s) = pre @ JObj d # post"
    and "map_of d ''mac'' = None"
    and "\<forall>e\<in>set pre. \<exists>k. entry_key e = Inr k"
  shows "\<exists>P1 evs1.
     diff_loop cfg pre (PREV_STATUS s) [] = (None, P1, evs1) \<and>
     poll_cycle cfg router s = ((update_clients cfg router s)\<lparr>PREV_STATUS := P1\<rparr>, evs1, Some KeyError) \<and>
     (\<forall>k. map_of P1 k =
        (case find (\<lambda>e. entry_key e = Inr k) (rev pre) of
           None \<Rightarrow> map_of (PREV_STATUS s) k
         | Some e \<Rightarrow> Some (entry_current e))) \<and>
     check_status_change (Suc n) cfg router s =
       (case check_status_change n cfg router ((update_clients cfg router s)\<lparr>PREV_STATUS := P1\<rparr>) of
          (s2, evs') \<Rightarrow> (s2, evs1 @ evs'))"
proof -
  obtain P1 evs1 where pre: "diff_loop cfg pre (PREV_STATUS s) [] = (None, P1, evs1)"
    using diff_loop_hashable [OF assms(3)] by blast
  have "diff_entry cfg (JObj d) P1 = Inl KeyError"
    using assms(2) by (simp add: diff_entry_def)
  then have "diff_loop cfg (pre @ JObj d # post) (PREV_STATUS s) [] = (Some KeyError, P1, evs1)"
    using diff_loop_append [OF pre, of "JObj d # post"] by simp
  then have cyc: "poll_cycle cfg router s =
      ((update_clients cfg router s)\<lparr>PREV_STATUS := P1\<rparr>, evs1, Some KeyError)"
    using poll_cycle_diff_loop [of cfg router s "Some KeyError" P1 evs1] assms(1) by simp
  have m: "\<forall>k. map_of P1 k =
        (case find (\<lambda>e. entry_key e = Inr k) (rev pre) of
           None \<Rightarrow> map_of (PREV_STATUS s) k
         | Some e \<Rightarrow> Some (entry_current e))"
    using diff_loop_prev_status [OF pre] by blast
  have "check_status_change (Suc n) cfg router s =
       (case check_status_change n cfg router ((update_clients cfg router s)\<lparr>PREV_STATUS := P1\<rparr>) of
          (s2, evs') \<Rightarrow> (s2, evs1 @ evs'))"
    by (simp add: cyc)
  with pre cyc m show ?thesis by blast
qed

theorem diff_stops_at_entry_without_mac_witness:
  "ACTIVE_CLIENTS (update_clients example_config (router_hosts [dev_20, dev_no_mac, dev_5_off]) state_seen)
     = [dev_5_off] @ dev_no_mac # [dev_20] \<and>
   dev_field ''mac'' dev_no_mac = None \<and>
   entry_key dev_5_off = Inr (KStr ''AA:00:00:00:00:05'') \<and>
   PREV_STATUS (fst (poll_cycle example_config (router_hosts [dev_20, dev_no_mac, dev_5_off]) state_seen))
     = [(KStr ''AA:00:00:00:00:05'', JBool False), (KStr ''AA:00:00:00:00:20'', JBool False)] \<and>
   fst (snd (poll_cycle example_config (router_hosts [dev_20, dev_no_mac, dev_5_off]) state_seen))
     = [\<lparr>ev_connected = False, ev_name = JStr ''AA:00:00:00:00:05'', ev_mac = JStr ''AA:00:00:00:00:05'',
         ev_ip = JStr ''10.0.0.5'', ev_wifi = False, ev_chat_ids = [1001]\<rparr>] \<and>
   snd (snd (poll_cycle example_config (router_hosts [dev_20, dev_no_mac, dev_5_off]) state_seen))
     = Some KeyError \<and>
   entry_current dev_20 = JBool True"
proof -
  let ?d = "[(''ip'', JStr ''10.0.0.7''), (''active'', JBool True)]"
  have h1: "ACTIVE_CLIENTS (update_clients example_config (router_hosts [dev_20, dev_no_mac, dev_5_off]) state_seen)
     = [dev_5_off] @ JObj ?d # [dev_20]"
    by (simp add: eval_defs state_seen_def dev_5_off_def dev_no_mac_def dev_20_def)
  have h2: "map_of ?d ''mac'' = None" by simp
  have k: "entry_key dev_5_off = Inr (KStr ''AA:00:00:00:00:05'')"
    by (simp add: entry_key_def dev_5_off_def)
  then have h3: "\<forall>e\<in>set [dev_5_off]. \<exists>k. entry_key e = Inr k" by simp
  obtain P1 evs1 where
    pre: "diff_loop example_config [dev_5_off] (PREV_STATUS state_seen) [] = (None, P1, evs1)"
    and cyc: "poll_cycle example_config (router_hosts [dev_20, dev_no_mac, dev_5_off]) state_seen =
      ((update_clients example_config (router_hosts [dev_20, dev_no_mac, dev_5_off]) state_seen)\<lparr>PREV_STATUS := P1\<rparr>,
       evs1, Some KeyError)"
    using diff_stops_at_entry_without_mac [OF h1 h2 h3, where n = 0] by (elim exE conjE) simp
  have "diff_loop example_config [dev_5_off] (PREV_STATUS state_seen) [] =
      (None, [(KStr ''AA:00:00:00:00:05'', JBool False), (KStr ''AA:00:00:00:00:20'', JBool False)],
       [\<lparr>ev_connected = False, ev_name = JStr ''AA:00:00:00:00:05'', ev_mac = JStr ''AA:00:00:00:00:05'',
         ev_ip = JStr ''10.0.0.5'', ev_wifi = False, ev_chat_ids = [1001]\<rparr>])"
    by (simp add: diff_defs dict_get_def dev_5_off_def example_config_def)
  with pre have P1: "P1 = [(KStr ''AA:00:00:00:00:05'', JBool False), (KStr ''AA:00:00:00:00:20'', JBool False)]"
    and evs1: "evs1 = [\<lparr>ev_connected = False, ev_name = JStr ''AA:00:00:00:00:05'', ev_mac = JStr ''AA:00:00:00:00:05'',
         ev_ip = JStr ''10.0.0.5'', ev_wifi = False, ev_chat_ids = [1001]\<rparr>]"
    by simp_all
  have m: "dev_field ''mac'' dev_no_mac = None" by (simp add: dev_field_def dev_no_mac_def)
  have c: "entry_current dev_20 = JBool True" by (simp add: entry_current_def dev_20_def dict_get_def)
  have h1': "ACTIVE_CLIENTS (update_clients example_config (router_hosts [dev_20, dev_no_mac, dev_5_off]) state_seen)
     = [dev_5_off] @ dev_no_mac # [dev_20]"
    using h1 by (simp add: dev_no_mac_def)
  show ?thesis using h1' m k c by (simp add: cyc P1 evs1)
qed

text \<open>
  Claim C3. A poll whose request raises, is answered with a status from 400 to 599 or with a
  body that is not JSON or is nested too deeply to parse, or whose answer has no or an empty
  \<open>host\<close>, sets \<open>ACTIVE_CLIENTS\<close> to the empty list, leaves \<open>PREV_STATUS\<close> as it is and sends nothing. In the poll after it,
  a device that is reported with the active value that \<open>PREV_STATUS\<close> held for it gets no
  notification.
\<close>

theorem failed_poll_keeps_prev_status:
  assumes "router (requests_sent s)
             (GET (WIFI_HOST cfg @ ''/rci/show/device-list'') (Some (WIFI_LOGIN cfg, WIFI_PASSWORD cfg)))
             = Raises \<or>
           (\<exists>r. router (requests_sent s)
                   (GET (WIFI_HOST cfg @ ''/rci/show/device-list'') (Some (WIFI_LOGIN cfg, WIFI_PASSWORD cfg)))
                   = Returns r \<and>
                ((400 \<le> status_code r \<and> status_code r < 600) \<or> json_body r = Not_JSON \<or>
                 json_body r = Too_Deep \<or>
                 (\<exists>d. json_body r = Parsed (JObj d) \<and> \<not> truthy (dict_get d ''host'' (JArr [])))))"
  shows "ACTIVE_CLIENTS (fst (poll_cycle cfg router s)) = [] \<and>
     PREV_STATUS (fst (poll_cycle cfg router s)) = PREV_STATUS s \<and>
     fst (snd (poll_cycle cfg router s)) = [] \<and>
     (\<forall>k v. map_of (PREV_STATUS s) k = Some v \<and>
        (\<forall>e\<in>set (ACTIVE_CLIENTS (fst (poll_cycle cfg router (fst (poll_cycle cfg router s))))).
            entry_key e = Inr k \<longrightarrow> entry_current e = v)
        \<longrightarrow> (\<forall>ev\<in>set (fst (snd (poll_cycle cfg router (fst (poll_cycle cfg router s))))).
               key_of (ev_mac ev) \<noteq> Inr k))"
proof -
  let ?s1 = "fst (poll_cycle cfg router s)"
  have empty: "ACTIVE_CLIENTS (update_clients cfg router s) = []"
    using assms
    by (auto simp: update_clients_def keen_get_def session_send_def try_except_def
        raise_for_status_def response_json_def catch_all_def device_list_def Let_def
        split: reply.splits sum.splits option.splits body.splits)
  then have cyc: "poll_cycle cfg router s = ((update_clients cfg router s)\<lparr>PREV_STATUS := PREV_STATUS s\<rparr>, [], None)"
    using poll_cycle_diff_loop [of cfg router s None "PREV_STATUS s" "[]"] by simp
  have 1: "ACTIVE_CLIENTS ?s1 = []" using cyc empty by simp
  have 2: "PREV_STATUS ?s1 = PREV_STATUS s" using cyc by simp
  have 3: "fst (snd (poll_cycle cfg router s)) = []" using cyc by simp
  have 4: "\<forall>ev\<in>set (fst (snd (poll_cycle cfg router ?s1))). key_of (ev_mac ev) \<noteq> Inr k"
    if pv: "map_of (PREV_STATUS s) k = Some v"
      and same: "\<forall>e\<in>set (ACTIVE_CLIENTS (fst (poll_cycle cfg router ?s1))). entry_key e = Inr k \<longrightarrow> entry_current e = v"
    for k v
  proof -
    obtain c P' evs where res:
      "diff_loop cfg (ACTIVE_CLIENTS (update_clients cfg router ?s1)) (PREV_STATUS ?s1) [] = (c, P', evs)"
      by (cases "diff_loop cfg (ACTIVE_CLIENTS (update_clients cfg router ?s1)) (PREV_STATUS ?s1) []") auto
    then have "fst (snd (poll_cycle cfg router ?s1)) = evs"
      using poll_cycle_diff_loop [of cfg router ?s1 c P' evs] by simp
    moreover have "\<forall>ev\<in>set evs. key_of (ev_mac ev) \<noteq> Inr k"
      using diff_loop_no_event [of "PREV_STATUS ?s1" k v "ACTIVE_CLIENTS (update_clients cfg router ?s1)" "[]" cfg c P' evs]
        pv same res 2 by (simp add: poll_cycle_clients)
    ultimately show ?thesis by simp
  qed
  show ?thesis using 1 2 3 4 by blast
qed

theorem failed_poll_keeps_prev_status_witness:
  "router_flaky (requests_sent state_seen)
     (GET (WIFI_HOST example_config @ ''/rci/show/device-list'')
        (Some (WIFI_LOGIN example_config, WIFI_PASSWORD example_config))) = Raises \<and>
   ACTIVE_CLIENTS (fst (poll_cycle example_config router_flaky state_seen)) = [] \<and>
   PREV_STATUS (fst (poll_cycle example_config router_flaky state_seen)) = PREV_STATUS state_seen \<and>
   fst (snd (poll_cycle example_config router_flaky state_seen)) = [] \<and>
   map_of (PREV_STATUS state_seen) (KStr ''AA:00:00:00:00:05'') = Some (JBool True) \<and>
   ACTIVE_CLIENTS (fst (poll_cycle example_config router_flaky (fst (poll_cycle example_config router_flaky state_seen))))
     = [dev_5] \<and>
   entry_key dev_5 = Inr (KStr ''AA:00:00:00:00:05'') \<and>
   entry_current dev_5 = JBool True \<and>
   fst (snd (poll_cycle example_config router_flaky (fst (poll_cycle example_config router_flaky state_seen)))) = []"
proof -
  have h: "router_flaky (requests_sent state_seen)
     (GET (WIFI_HOST example_config @ ''/rci/show/device-list'')
        (Some (WIFI_LOGIN example_config, WIFI_PASSWORD example_config))) = Raises"
    by (simp add: router_flaky_def state_seen_def)
  note t = failed_poll_keeps_prev_status [of router_flaky state_seen example_config, OF disjI1, OF h]
  have first: "poll_cycle example_config router_flaky state_seen =
      (state_seen\<lparr>requests_sent := [GET ''http://192.168.1.1/rci/show/device-list'' (Some (''admin'', ''secret''))]\<rparr>,
       [], None)"
    by (simp add: eval_defs diff_defs router_flaky_def)
  have second: "poll_cycle example_config router_flaky
      (state_seen\<lparr>requests_sent := [GET ''http://192.168.1.1/rci/show/device-list'' (Some (''admin'', ''secret''))]\<rparr>) =
      (\<lparr>ACTIVE_CLIENTS = [dev_5],
        PREV_STATUS = [(KStr ''AA:00:00:00:00:05'', JBool True), (KStr ''AA:00:00:00:00:20'', JBool False)],
        requests_sent = [GET ''http://192.168.1.1/rci/show/device-list'' (Some (''admin'', ''secret'')),
                         GET ''http://192.168.1.1/rci/show/device-list'' (Some (''admin'', ''secret''))]\<rparr>,
       [], None)"
    by (simp add: eval_defs diff_defs router_flaky_def dev_5_def)
  have k: "entry_key dev_5 = Inr (KStr ''AA:00:00:00:00:05'')" "entry_current dev_5 = JBool True"
    by (simp_all add: entry_key_def entry_current_def dict_get_def dev_5_def)
  have p: "map_of (PREV_STATUS state_seen) (KStr ''AA:00:00:00:00:05'') = Some (JBool True)"
    by (simp add: state_seen_def)
  show ?thesis using t h k p by (simp add: first second)
qed

section \<open>No re-authentication after a 401\<close>

text \<open>
  Claim C1, as the code has it. \<open>keen_get\<close> makes exactly one request, the data query
  itself, which is not a request to the authentication endpoint; when the answer is 401 it
  returns the empty dict. The polling loop makes one device-list query per cycle and nothing
  else. So a 401 never makes the query client run \<open>keen_auth\<close>; the handshake runs only
  where a caller runs it (at startup and at the beginning of the start handler).
\<close>

theorem keen_get_no_reauth:
  "snd (keen_get cfg router path sent) =
     sent @ [GET (WIFI_HOST cfg @ ''/rci/show/'' @ path) (Some (WIFI_LOGIN cfg, WIFI_PASSWORD cfg))] \<and>
   \<not> is_auth_request cfg (GET (WIFI_HOST cfg @ ''/rci/show/'' @ path) (Some (WIFI_LOGIN cfg, WIFI_PASSWORD cfg))) \<and>
   ((\<exists>r. router sent (GET (WIFI_HOST cfg @ ''/rci/show/'' @ path) (Some (WIFI_LOGIN cfg, WIFI_PASSWORD cfg)))
            = Returns r \<and> status_code r = 401)
     \<longrightarrow> fst (keen_get cfg router path sent) = Inr (JObj [])) \<and>
   requests_sent (fst (check_status_change n cfg router s)) =
     requests_sent s @
     replicate n (GET (WIFI_HOST cfg @ ''/rci/show/device-list'') (Some (WIFI_LOGIN cfg, WIFI_PASSWORD cfg)))"
proof -
  have 1: "snd (keen_get cfg router path sent) =
     sent @ [GET (WIFI_HOST cfg @ ''/rci/show/'' @ path) (Some (WIFI_LOGIN cfg, WIFI_PASSWORD cfg))]"
    by (simp add: keen_get_def session_send_def)
  have 2: "\<not> is_auth_request cfg (GET (WIFI_HOST cfg @ ''/rci/show/'' @ path) (Some (WIFI_LOGIN cfg, WIFI_PASSWORD cfg)))"
    by simp
  have 3: "(\<exists>r. router sent (GET (WIFI_HOST cfg @ ''/rci/show/'' @ path) (Some (WIFI_LOGIN cfg, WIFI_PASSWORD cfg)))
            = Returns r \<and> status_code r = 401)
     \<longrightarrow> fst (keen_get cfg router path sent) = Inr (JObj [])"
    by (auto simp: keen_get_def session_send_def try_except_def raise_for_status_def)
  show ?thesis using 1 2 3 requests_check_status_change by blast
qed

theorem keen_get_no_reauth_witness:
  "router_expired [] (GET (WIFI_HOST example_config @ ''/rci/show/'' @ ''system'')
       (Some (WIFI_LOGIN example_config, WIFI_PASSWORD example_config)))
     = Returns (unauthorized [(''x-ndm-realm'', ''Keenetic''), (''x-ndm-challenge'', ''NONCE'')]) \<and>
   status_code (unauthorized [(''x-ndm-realm'', ''Keenetic''), (''x-ndm-challenge'', ''NONCE'')]) = 401 \<and>
   keen_get example_config router_expired ''system'' [] =
     (Inr (JObj []), [GET ''http://192.168.1.1/rci/show/system'' (Some (''admin'', ''secret''))])"
proof -
  have h: "router_expired [] (GET (WIFI_HOST example_config @ ''/rci/show/'' @ ''system'')
       (Some (WIFI_LOGIN example_config, WIFI_PASSWORD example_config)))
     = Returns (unauthorized [(''x-ndm-realm'', ''Keenetic''), (''x-ndm-challenge'', ''NONCE'')]) \<and>
   status_code (unauthorized [(''x-ndm-realm'', ''Keenetic''), (''x-ndm-challenge'', ''NONCE'')]) = 401"
    by (simp add: router_expired_def unauthorized_def)
  then have "\<exists>r. router_expired [] (GET (WIFI_HOST example_config @ ''/rci/show/'' @ ''system'')
       (Some (WIFI_LOGIN example_config, WIFI_PASSWORD example_config))) = Returns r \<and> status_code r = 401"
    by blast
  then have "fst (keen_get example_config router_expired ''system'' []) = Inr (JObj []) \<and>
      snd (keen_get example_config router_expired ''system'' []) =
        [] @ [GET (WIFI_HOST example_config @ ''/rci/show/'' @ ''system'')
                (Some (WIFI_LOGIN example_config, WIFI_PASSWORD example_config))]"
    using keen_get_no_reauth [of example_config router_expired "''system''" "[]" 0 initial_state]
    by blast
  then have "keen_get example_config router_expired ''system'' [] =
     (Inr (JObj []), [GET ''http://192.168.1.1/rci/show/system'' (Some (''admin'', ''secret''))])"
    by (simp add: prod_eq_iff example_config_def)
  with h show ?thesis by simp
qed

text \<open>
  The claim as stated fails: against a router that answers every request 401, two cycles of
  the loop make two device-list queries and no request to the authentication endpoint.
\<close>

theorem no_reauth_counterexample:
  "router_expired [] (GET ''http://192.168.1.1/rci/show/device-list'' (Some (''admin'', ''secret'')))
     = Returns \<lparr>status_code = 401,
                headers = [(''x-ndm-realm'', ''Keenetic''), (''x-ndm-challenge'', ''NONCE'')],
                json_body = Not_JSON\<rparr> \<and>
   keen_get example_config router_expired ''device-list'' [] =
     (Inr (JObj []), [GET ''http://192.168.1.1/rci/show/device-list'' (Some (''admin'', ''secret''))]) \<and>
   requests_sent (fst (check_status_change 2 example_config router_expired initial_state)) =
     [GET ''http://192.168.1.1/rci/show/device-list'' (Some (''admin'', ''secret'')),
      GET ''http://192.168.1.1/rci/show/device-list'' (Some (''admin'', ''secret''))] \<and>
   \<not> is_auth_request example_config
       (GET ''http://192.168.1.1/rci/show/device-list'' (Some (''admin'', ''secret'')))"
  by (simp add: eval_defs diff_defs router_expired_def unauthorized_def numeral_2_eq_2)

section \<open>Memory accounting\<close>

text \<open>The exponent that \<open>float_round\<close> works with is the binary exponent of its argument.\<close>

lemma bit_length_pos: "0 < n \<Longrightarrow> 0 < bit_length n"
proof (induction n rule: bit_length.induct)
  case (1 n)
  have "0 \<le> bit_length (n div 2)"
  proof (cases "0 < n div 2")
    case True
    then show ?thesis using 1 by simp
  next
    case False
    then show ?thesis by (simp add: bit_length.simps)
  qed
  then show ?case using "1.prems" by (simp add: bit_length.simps [of n])
qed

lemma bit_length_bounds:
  "0 < n \<Longrightarrow> 2 ^ nat (bit_length n - 1) \<le> n \<and> n < 2 ^ nat (bit_length n)"
proof (induction n rule: bit_length.induct)
  case (1 n)
  show ?case
  proof (cases "n = 1")
    case True
    then show ?thesis by (simp add: bit_length.simps)
  next
    case False
    with "1.prems" have m: "0 < n div 2" by simp
    have bl: "bit_length n = 1 + bit_length (n div 2)"
      using "1.prems" by (simp add: bit_length.simps [of n])
    from "1.IH" "1.prems" m
    have ih: "2 ^ nat (bit_length (n div 2) - 1) \<le> n div 2" "n div 2 < 2 ^ nat (bit_length (n div 2))"
      by simp_all
    have p: "0 < bit_length (n div 2)" using m by (rule bit_length_pos)
    then have e: "(2::int) ^ nat (bit_length (n div 2)) = 2 * 2 ^ nat (bit_length (n div 2) - 1)"
      by (metis Suc_nat_eq_nat_zadd1 add.commute diff_add_cancel power_Suc zle_add1_eq_le)
    have e2: "(2::int) ^ nat (1 + bit_length (n div 2)) = 2 * 2 ^ nat (bit_length (n div 2))"
      using p by (simp add: nat_add_distrib)
    have d: "2 * (n div 2) \<le> n" "n < 2 * (n div 2) + 2"
      by presburger+
    have "2 ^ nat (bit_length (n div 2)) \<le> n"
      using ih(1) e d(1) by linarith
    moreover have "n < 2 ^ nat (1 + bit_length (n div 2))"
      using ih(2) e2 d(2) by linarith
    ultimately show ?thesis by (simp add: bl)
  qed
qed


lemma pow2_add: "pow2 (e + 1) = 2 * pow2 e"
proof (cases "0 \<le> e")
  case True
  then show ?thesis by (simp add: pow2_def nat_add_distrib)
next
  case False
  then have "e + 1 \<le> 0" by simp
  show ?thesis
  proof (cases "e + 1 = 0")
    case True
    then have "e = - 1" by simp
    then show ?thesis by (simp add: pow2_def)
  next
    case False
    with \<open>e + 1 \<le> 0\<close> have neg: "e + 1 < 0" by simp
    then have "nat (- e) = Suc (nat (- (e + 1)))" by simp
    then show ?thesis using neg by (simp add: pow2_def)
  qed
qed

lemma pow2_nonneg: "0 \<le> e \<Longrightarrow> pow2 e = of_int (2 ^ nat e)"
  by (simp add: pow2_def)

lemma pow2_neg: "pow2 (- e) = 1 / pow2 e"
  by (cases "e = 0") (auto simp: pow2_def)

lemma pow2_pos: "0 < pow2 e"
  by (simp add: pow2_def)

lemma binary_exponent_correct:
  assumes "0 < x"
  shows "pow2 (binary_exponent x) \<le> x \<and> x < pow2 (binary_exponent x + 1)"
proof (cases "1 \<le> x")
  case True
  then have n: "0 < \<lfloor>x\<rfloor>" by simp
  let ?b = "bit_length \<lfloor>x\<rfloor>"
  have b: "0 < ?b" using n by (rule bit_length_pos)
  from bit_length_bounds [OF n]
  have lo: "2 ^ nat (?b - 1) \<le> \<lfloor>x\<rfloor>" and hi: "\<lfloor>x\<rfloor> < 2 ^ nat ?b" by simp_all
  have e: "binary_exponent x = ?b - 1" using True by (simp add: binary_exponent_def)
  have "of_int (2 ^ nat (?b - 1)) \<le> (of_int \<lfloor>x\<rfloor> :: rat)" using lo by (simp only: of_int_le_iff)
  also have "\<dots> \<le> x" by simp
  finally have 1: "pow2 (?b - 1) \<le> x" using b by (simp add: pow2_nonneg)
  have "\<lfloor>x\<rfloor> + 1 \<le> 2 ^ nat ?b" using hi by simp
  then have "(of_int (\<lfloor>x\<rfloor> + 1) :: rat) \<le> of_int (2 ^ nat ?b)" by (simp only: of_int_le_iff)
  moreover have "x < of_int (\<lfloor>x\<rfloor> + 1)" by linarith
  ultimately have "x < of_int (2 ^ nat ?b)" by linarith
  then have 2: "x < pow2 ?b" using b by (simp add: pow2_nonneg)
  show ?thesis using 1 2 by (simp add: e)
next
  case False
  with assms have y: "1 < 1 / x" by simp
  let ?n = "\<lceil>1 / x\<rceil>"
  let ?j = "bit_length (?n - 1)"
  have n: "0 < ?n - 1" using y by simp
  have j: "0 < ?j" using n by (rule bit_length_pos)
  from bit_length_bounds [OF n]
  have lo: "2 ^ nat (?j - 1) \<le> ?n - 1" and hi: "?n - 1 < 2 ^ nat ?j" by simp_all
  have e: "binary_exponent x = - ?j" using False by (simp add: binary_exponent_def)
  have "?n \<le> 2 ^ nat ?j" using hi by simp
  then have le: "(of_int ?n :: rat) \<le> of_int (2 ^ nat ?j)" by (simp only: of_int_le_iff)
  have "1 / x \<le> of_int ?n" by (rule le_of_int_ceiling)
  also note le
  finally have "1 / x \<le> of_int (2 ^ nat ?j)" .
  then have "1 / x \<le> pow2 ?j" using j by (simp add: pow2_nonneg)
  then have "1 / pow2 ?j \<le> x"
    using assms pow2_pos [of ?j] by (simp add: field_simps)
  then have 1: "pow2 (- ?j) \<le> x" by (simp only: pow2_neg)
  have "2 ^ nat (?j - 1) < ?n" using lo by simp
  then have "(of_int (2 ^ nat (?j - 1)) :: rat) < 1 / x" by (simp only: less_ceiling_iff)
  then have "pow2 (?j - 1) < 1 / x" using j by (simp add: pow2_nonneg)
  then have "x < 1 / pow2 (?j - 1)"
    using assms pow2_pos [of "?j - 1"] by (simp add: field_simps)
  then have "x < pow2 (- (?j - 1))" by (simp only: pow2_neg)
  moreover have "- (?j - 1) = - ?j + 1" by simp
  ultimately have 2: "x < pow2 (- ?j + 1)" by simp
  show ?thesis using 1 2 by (simp add: e)
qed























end
